theory Spec2Isabelle
  imports Main "HOL-Library.Monad_Syntax"
begin

section \<open>The Hoard-style allocator of mtmm.c\<close>

text \<open>
  A shallow embedding of \<^verbatim>\<open>src/mtmm.c\<close>. Memory is an explicit store: superblock
  headers and block headers live in two maps from addresses to records, the address 0 is
  \<^verbatim>\<open>NULL\<close>, and every function of the source is a function from a state to an optional
  state. The value \<open>None\<close> stands for an execution that does not return: a dereference of
  \<^verbatim>\<open>NULL\<close> or of an address that holds no header, an array index out of bounds, a
  conversion whose result C leaves undefined, a second lock of a mutex that is already
  held, or a loop that runs forever. The model runs one thread at a time; the thread
  identifier is an argument of \<open>malloc\<close>.
\<close>

subsection \<open>Platform parameters and constants\<close>

type_synonym addr = nat

text \<open>
  \<^verbatim>\<open>SUPERBLOCK_SIZE\<close> is a macro of the header \<^verbatim>\<open>mtmm.h\<close>, and the two \<^verbatim>\<open>sizeof\<close>
  values, the width of \<^verbatim>\<open>size_t\<close> and the size of a page of memory are fixed by the
  platform. They are parameters.
\<close>

record platform =
  SUPERBLOCK_SIZE :: nat
  sizeof_superblockHeader :: nat
  sizeof_blockHeader :: nat
  size_t_bits :: nat
  page_size :: nat

definition NUM_OF_CLASSES :: nat where
  "NUM_OF_CLASSES = 16"

definition NUM_OF_CPUS :: nat where
  "NUM_OF_CPUS = 2"

definition NUM_OF_HEAPS :: nat where
  "NUM_OF_HEAPS = NUM_OF_CPUS + 1"

definition SIZE_THRESHOLD :: "platform \<Rightarrow> nat" where
  "SIZE_THRESHOLD L = SUPERBLOCK_SIZE L div 2"

definition K :: nat where
  "K = 0"

definition SIZE_OF_CLASS :: "nat \<Rightarrow> nat" where
  "SIZE_OF_CLASS c = 2 ^ c"

definition HASH :: "nat \<Rightarrow> nat" where
  "HASH ident = ident mod NUM_OF_CPUS"

text \<open>Arithmetic of \<^verbatim>\<open>unsigned int\<close> (32 bits) and of \<^verbatim>\<open>size_t\<close>.\<close>

definition u32 :: "nat \<Rightarrow> nat" where
  "u32 n = n mod 2 ^ 32"

definition u32_sub :: "nat \<Rightarrow> nat \<Rightarrow> nat" where
  "u32_sub a b = (a + 2 ^ 32 - b mod 2 ^ 32) mod 2 ^ 32"

definition size_t :: "platform \<Rightarrow> nat \<Rightarrow> nat" where
  "size_t L n = n mod 2 ^ size_t_bits L"

text \<open>
  \<^verbatim>\<open>log2\<close> and \<^verbatim>\<open>ceil\<close> come from the C library. On a positive integer
  \<^verbatim>\<open>(int) log2(n)\<close> is the position of the highest bit and \<^verbatim>\<open>(int) ceil(log2(n))\<close> the
  least \<open>c\<close> with \<open>n \<le> 2 ^ c\<close>. \<^verbatim>\<open>log2(0)\<close> is minus infinity, whose conversion to
  \<^verbatim>\<open>int\<close> is undefined.
\<close>

fun ilog2 :: "nat \<Rightarrow> nat" where
  "ilog2 n = (if n < 2 then 0 else Suc (ilog2 (n div 2)))"

declare ilog2.simps [simp del]

definition int_log2 :: "nat \<Rightarrow> nat option" where
  "int_log2 n = (if n = 0 then None else Some (ilog2 n))"

definition int_ceil_log2 :: "nat \<Rightarrow> nat option" where
  "int_ceil_log2 n =
     (if n = 0 then None else if n = 1 then Some 0 else Some (Suc (ilog2 (n - 1))))"

text \<open>
  Line 377 compares \<^verbatim>\<open>(float) u < (1-F) * n\<close> with \<^verbatim>\<open>F\<close> = 0.4, in IEEE 754 arithmetic
  with rounding to nearest, ties to even: \<open>u\<close> is rounded to the 24 significant bits of a
  \<^verbatim>\<open>float\<close>, \<open>n\<close> converts to \<^verbatim>\<open>double\<close> exactly, and the product is rounded to the 53
  significant bits of a \<^verbatim>\<open>double\<close>. The \<^verbatim>\<open>double\<close> nearest to 0.4 is
  \<open>7205759403792794 / 2 ^ 54\<close>, so \<^verbatim>\<open>1-F\<close> is exactly \<open>5404319552844595 / 2 ^ 53\<close>.
  \<open>round_bits p m\<close> is the natural number \<open>m\<close> rounded to \<open>p\<close> significant bits; both
  sides of the comparison are taken in units of \<open>2 ^ -53\<close>.
\<close>

definition round_bits :: "nat \<Rightarrow> nat \<Rightarrow> nat" where
  "round_bits p m =
     (if m < 2 ^ p then m
      else let sh = Suc (ilog2 m) - p; q = m div 2 ^ sh; r = m mod 2 ^ sh
           in (if 2 ^ (sh - 1) < r \<or> (r = 2 ^ (sh - 1) \<and> odd q) then q + 1 else q) * 2 ^ sh)"

definition below_fraction :: "nat \<Rightarrow> nat \<Rightarrow> bool" where
  "below_fraction u n \<longleftrightarrow> round_bits 24 u * 2 ^ 53 < round_bits 53 (5404319552844595 * n)"

subsection \<open>Data structures\<close>

record blockHeader =
  blockSize :: nat
  inUse :: int
  b_next :: addr
  parentSuperblock :: addr

record superblockHeader =
  sb_usedBlocks :: nat
  sb_numOfBlocks :: nat
  freeList :: addr
  sb_next :: addr
  sb_prev :: addr
  parentHeap :: "nat option"

record sizeClass =
  sc_size :: nat
  sc_usedBlocks :: nat
  sc_numOfBlocks :: nat
  head :: addr
  tail :: addr

record memHeap =
  heap_id :: nat
  classes :: "nat \<Rightarrow> sizeClass"

datatype lock = ClassLock nat nat | SuperblockLock addr

datatype os_call = Mmap nat addr | Munmap addr nat

record state =
  isInitialized :: bool
  heaps :: "nat \<Rightarrow> memHeap"
  sbs :: "addr \<rightharpoonup> superblockHeader"
  blocks :: "addr \<rightharpoonup> blockHeader"
  bytes :: "addr \<rightharpoonup> nat"
  held :: "lock set"
  os_calls :: "os_call list"

text \<open>
  \<open>bytes\<close> is the memory as bytes: an address that is not mapped holds \<open>None\<close>. The
  headers are kept in \<open>sbs\<close> and \<open>blocks\<close>, not in \<open>bytes\<close>. Static storage and freshly
  mapped memory are filled with zeros.
\<close>

definition zero_block :: blockHeader where
  "zero_block = \<lparr>blockSize = 0, inUse = 0, b_next = 0, parentSuperblock = 0\<rparr>"

definition zero_superblock :: superblockHeader where
  "zero_superblock = \<lparr>sb_usedBlocks = 0, sb_numOfBlocks = 0, freeList = 0,
     sb_next = 0, sb_prev = 0, parentHeap = None\<rparr>"

definition zero_class :: sizeClass where
  "zero_class = \<lparr>sc_size = 0, sc_usedBlocks = 0, sc_numOfBlocks = 0, head = 0, tail = 0\<rparr>"

definition cold_start :: "(addr \<rightharpoonup> nat) \<Rightarrow> state" where
  "cold_start mem = \<lparr>isInitialized = False,
     heaps = (\<lambda>_. \<lparr>heap_id = 0, classes = (\<lambda>_. zero_class)\<rparr>),
     sbs = Map.empty, blocks = Map.empty, bytes = mem, held = {}, os_calls = []\<rparr>"

subsection \<open>Reading and writing the store\<close>

definition rd_sb :: "state \<Rightarrow> addr \<Rightarrow> superblockHeader option" where
  "rd_sb s a = (if a = 0 then None else sbs s a)"

definition wr_sb :: "addr \<Rightarrow> (superblockHeader \<Rightarrow> superblockHeader) \<Rightarrow> state \<Rightarrow> state option" where
  "wr_sb a f s = (case rd_sb s a of None \<Rightarrow> None
     | Some x \<Rightarrow> Some (s\<lparr>sbs := (sbs s)(a \<mapsto> f x)\<rparr>))"

definition rd_blk :: "state \<Rightarrow> addr \<Rightarrow> blockHeader option" where
  "rd_blk s a = (if a = 0 then None else blocks s a)"

definition wr_blk :: "addr \<Rightarrow> (blockHeader \<Rightarrow> blockHeader) \<Rightarrow> state \<Rightarrow> state option" where
  "wr_blk a f s = (case rd_blk s a of None \<Rightarrow> None
     | Some x \<Rightarrow> Some (s\<lparr>blocks := (blocks s)(a \<mapsto> f x)\<rparr>))"

text \<open>A size class is addressed as \<^verbatim>\<open>heaps[h].classes[c]\<close>; both indices are checked.\<close>

definition rd_class :: "state \<Rightarrow> nat \<times> nat \<Rightarrow> sizeClass option" where
  "rd_class s hc = (case hc of (h, c) \<Rightarrow>
     if h < NUM_OF_HEAPS \<and> c < NUM_OF_CLASSES then Some (classes (heaps s h) c) else None)"

definition wr_class :: "nat \<times> nat \<Rightarrow> (sizeClass \<Rightarrow> sizeClass) \<Rightarrow> state \<Rightarrow> state option" where
  "wr_class hc f s = (case hc of (h, c) \<Rightarrow>
     (case rd_class s hc of None \<Rightarrow> None
      | Some x \<Rightarrow> Some (s\<lparr>heaps := (heaps s)
          (h := (heaps s h)\<lparr>classes := (classes (heaps s h))(c := f x)\<rparr>)\<rparr>)))"

definition mutex_lock :: "lock \<Rightarrow> state \<Rightarrow> state option" where
  "mutex_lock l s = (if l \<in> held s then None else Some (s\<lparr>held := insert l (held s)\<rparr>))"

definition mutex_unlock :: "lock \<Rightarrow> state \<Rightarrow> state option" where
  "mutex_unlock l s = (if l \<in> held s then Some (s\<lparr>held := held s - {l}\<rparr>) else None)"

subsection \<open>init and fetch_memory\<close>

text \<open>
  \<^verbatim>\<open>init\<close> (lines 86-101) sets the identifier of each heap and the size and the two
  counters of each class. \<^verbatim>\<open>pthread_mutex_init\<close> is taken to succeed.
\<close>

definition init :: "state \<Rightarrow> state" where
  "init s = s\<lparr>heaps := (\<lambda>i. if i < NUM_OF_HEAPS
       then \<lparr>heap_id = i, classes = (\<lambda>j. if j < NUM_OF_CLASSES
              then (classes (heaps s i) j)\<lparr>sc_size := SIZE_OF_CLASS j,
                     sc_usedBlocks := 0, sc_numOfBlocks := 0\<rparr>
              else classes (heaps s i) j)\<rparr>
       else heaps s i)\<rparr>"

text \<open>
  \<^verbatim>\<open>fetch_memory\<close> (lines 104-120): the answer of the operating system is the argument
  \<open>os\<close>, 0 when \<^verbatim>\<open>open\<close> or \<^verbatim>\<open>mmap\<close> fails. \<^verbatim>\<open>mmap\<close> maps whole pages, filled with
  zeros: the length is rounded up to a multiple of the page size.
\<close>

definition page_round :: "platform \<Rightarrow> nat \<Rightarrow> nat" where
  "page_round L n = (n + page_size L - 1) div page_size L * page_size L"

definition fetch_memory :: "platform \<Rightarrow> addr \<Rightarrow> nat \<Rightarrow> state \<Rightarrow> state" where
  "fetch_memory L os sz s = s\<lparr>os_calls := os_calls s @ [Mmap sz os],
     bytes := (\<lambda>x. if os \<noteq> 0 \<and> os \<le> x \<and> x < os + page_round L sz then Some 0
                   else bytes s x)\<rparr>"

subsection \<open>search_sizeclass (lines 124-137)\<close>

partial_function (option) search_loop :: "state \<Rightarrow> addr \<Rightarrow> addr option" where
  "search_loop s p =
     (if p \<noteq> 0 then do {
        x \<leftarrow> rd_sb s p;
        if sb_usedBlocks x < sb_numOfBlocks x then Some (freeList x)
        else search_loop s (sb_next x) }
      else Some 0)"

definition search_sizeclass :: "nat \<times> nat \<Rightarrow> state \<Rightarrow> addr option" where
  "search_sizeclass cls s = do {
     c \<leftarrow> rd_class s cls;
     if sc_usedBlocks c = sc_numOfBlocks c then Some 0
     else search_loop s (head c) }"

subsection \<open>swap_superblocks (lines 140-160)\<close>

definition swap_superblocks :: "nat \<times> nat \<Rightarrow> addr \<Rightarrow> state \<Rightarrow> state option" where
  "swap_superblocks list sb s = do {
     x \<leftarrow> rd_sb s sb;
     let nextSB = sb_next x;
     if nextSB \<noteq> 0 then do {
       s1 \<leftarrow> (if sb_prev x \<noteq> 0
               then wr_sb (sb_prev x) (\<lambda>y. y\<lparr>sb_next := nextSB\<rparr>) s else Some s);
       n1 \<leftarrow> rd_sb s1 nextSB;
       s2 \<leftarrow> (if sb_next n1 \<noteq> 0
               then wr_sb (sb_next n1) (\<lambda>y. y\<lparr>sb_prev := sb\<rparr>) s1 else Some s1);
       x2 \<leftarrow> rd_sb s2 sb;
       let tmp_prev = sb_prev x2;
       n2 \<leftarrow> rd_sb s2 nextSB;
       s3 \<leftarrow> wr_sb sb (\<lambda>y. y\<lparr>sb_next := sb_next n2\<rparr>) s2;
       s4 \<leftarrow> wr_sb sb (\<lambda>y. y\<lparr>sb_prev := nextSB\<rparr>) s3;
       s5 \<leftarrow> wr_sb nextSB (\<lambda>y. y\<lparr>sb_next := sb\<rparr>) s4;
       s6 \<leftarrow> wr_sb nextSB (\<lambda>y. y\<lparr>sb_prev := tmp_prev\<rparr>) s5;
       l6 \<leftarrow> rd_class s6 list;
       s7 \<leftarrow> (if head l6 = sb then wr_class list (\<lambda>l. l\<lparr>head := nextSB\<rparr>) s6 else Some s6);
       l7 \<leftarrow> rd_class s7 list;
       if tail l7 = nextSB then wr_class list (\<lambda>l. l\<lparr>tail := sb\<rparr>) s7 else Some s7 }
     else Some s }"

text \<open>
  The loop of lines 187-190 and 369-372: while \<open>sb\<close> has a successor with strictly more
  used blocks, swap \<open>sb\<close> with it.
\<close>

partial_function (option) sink_loop :: "nat \<times> nat \<Rightarrow> addr \<Rightarrow> state \<Rightarrow> state option" where
  "sink_loop list sb s = do {
     x \<leftarrow> rd_sb s sb;
     if sb_next x \<noteq> 0 then do {
       n \<leftarrow> rd_sb s (sb_next x);
       if sb_usedBlocks x < sb_usedBlocks n then do {
         s' \<leftarrow> swap_superblocks list sb s;
         sink_loop list sb s' }
       else Some s }
     else Some s }"

text \<open>
  The loop of lines 267-270 and 324-327: while \<open>superblock\<close> has a predecessor with
  strictly fewer used blocks, swap the predecessor with its successor.
\<close>

partial_function (option) rise_loop :: "nat \<times> nat \<Rightarrow> addr \<Rightarrow> state \<Rightarrow> state option" where
  "rise_loop list superblock s = do {
     x \<leftarrow> rd_sb s superblock;
     if sb_prev x \<noteq> 0 then do {
       p \<leftarrow> rd_sb s (sb_prev x);
       if sb_usedBlocks x > sb_usedBlocks p then do {
         s' \<leftarrow> swap_superblocks list (sb_prev x) s;
         rise_loop list superblock s' }
       else Some s }
     else Some s }"

subsection \<open>move_superblock (lines 163-197)\<close>

text \<open>Lines 169-177: remove the superblock from its list.\<close>

definition list_remove :: "nat \<times> nat \<Rightarrow> addr \<Rightarrow> state \<Rightarrow> state option" where
  "list_remove src_list sb s = do {
     l \<leftarrow> rd_class s src_list;
     s1 \<leftarrow> (if head l = sb then do {
               x \<leftarrow> rd_sb s sb;
               wr_class src_list (\<lambda>l. l\<lparr>head := sb_next x\<rparr>) s }
             else Some s);
     l1 \<leftarrow> rd_class s1 src_list;
     s2 \<leftarrow> (if tail l1 = sb then do {
               x \<leftarrow> rd_sb s1 sb;
               wr_class src_list (\<lambda>l. l\<lparr>tail := sb_prev x\<rparr>) s1 }
             else Some s1);
     x2 \<leftarrow> rd_sb s2 sb;
     s3 \<leftarrow> (if sb_next x2 \<noteq> 0
             then wr_sb (sb_next x2) (\<lambda>y. y\<lparr>sb_prev := sb_prev x2\<rparr>) s2 else Some s2);
     x3 \<leftarrow> rd_sb s3 sb;
     if sb_prev x3 \<noteq> 0
     then wr_sb (sb_prev x3) (\<lambda>y. y\<lparr>sb_next := sb_next x3\<rparr>) s3 else Some s3 }"

text \<open>Lines 178-185: add the superblock at the head of the destination list.\<close>

definition list_push_head :: "nat \<times> nat \<Rightarrow> addr \<Rightarrow> state \<Rightarrow> state option" where
  "list_push_head dst_list sb s = do {
     s5 \<leftarrow> wr_sb sb (\<lambda>y. y\<lparr>sb_prev := 0\<rparr>) s;
     l \<leftarrow> rd_class s5 dst_list;
     s6 \<leftarrow> wr_sb sb (\<lambda>y. y\<lparr>sb_next := head l\<rparr>) s5;
     s7 \<leftarrow> (if head l \<noteq> 0
             then wr_sb (head l) (\<lambda>y. y\<lparr>sb_prev := sb\<rparr>) s6
             else wr_class dst_list (\<lambda>l. l\<lparr>tail := sb\<rparr>) s6);
     wr_class dst_list (\<lambda>l. l\<lparr>head := sb\<rparr>) s7 }"

text \<open>Lines 192-196: the counters of the two classes.\<close>

definition move_statistics :: "addr \<Rightarrow> nat \<times> nat \<Rightarrow> nat \<times> nat \<Rightarrow> state \<Rightarrow> state option" where
  "move_statistics sb src_class dst_class s = do {
     x \<leftarrow> rd_sb s sb;
     s11 \<leftarrow> wr_class src_class
              (\<lambda>l. l\<lparr>sc_usedBlocks := u32_sub (sc_usedBlocks l) (sb_usedBlocks x)\<rparr>) s;
     s12 \<leftarrow> wr_class src_class
              (\<lambda>l. l\<lparr>sc_numOfBlocks := u32_sub (sc_numOfBlocks l) (sb_numOfBlocks x)\<rparr>) s11;
     s13 \<leftarrow> wr_class dst_class
              (\<lambda>l. l\<lparr>sc_usedBlocks := u32 (sc_usedBlocks l + sb_usedBlocks x)\<rparr>) s12;
     wr_class dst_class
       (\<lambda>l. l\<lparr>sc_numOfBlocks := u32 (sc_numOfBlocks l + sb_numOfBlocks x)\<rparr>) s13 }"

definition move_superblock :: "addr \<Rightarrow> nat \<Rightarrow> nat \<Rightarrow> nat \<Rightarrow> state \<Rightarrow> state option" where
  "move_superblock sb src dst class s = do {
     s4 \<leftarrow> list_remove (src, class) sb s;
     s8 \<leftarrow> list_push_head (dst, class) sb s4;
     s9 \<leftarrow> sink_loop (dst, class) sb s8;
     s10 \<leftarrow> wr_sb sb (\<lambda>y. y\<lparr>parentHeap := Some dst\<rparr>) s9;
     move_statistics sb (src, class) (dst, class) s10 }"

subsection \<open>init_superblock (lines 200-224)\<close>

definition block_stride :: "platform \<Rightarrow> nat \<Rightarrow> nat" where
  "block_stride L class = sizeof_blockHeader L + SIZE_OF_CLASS class"

text \<open>The loop of lines 215-222, on the number of iterations that remain.\<close>

primrec init_blocks ::
  "platform \<Rightarrow> addr \<Rightarrow> nat \<Rightarrow> nat \<Rightarrow> addr \<Rightarrow> (addr \<rightharpoonup> blockHeader) \<Rightarrow> (addr \<rightharpoonup> blockHeader)"
where
  "init_blocks L sb class 0 p m = m"
| "init_blocks L sb class (Suc n) p m =
     init_blocks L sb class n (p + block_stride L class)
       (m(p \<mapsto> \<lparr>blockSize = u32 (SIZE_OF_CLASS class), inUse = 0,
                 b_next = p + block_stride L class, parentSuperblock = sb\<rparr>))"

text \<open>
  The header is never larger than the superblock, so the subtraction of line 205 does
  not wrap. \<^verbatim>\<open>pthread_mutex_init\<close> is taken to succeed, and the function returns 0.
\<close>

definition init_superblock :: "platform \<Rightarrow> addr \<Rightarrow> nat \<Rightarrow> state \<Rightarrow> state option" where
  "init_superblock L sb class s = do {
     s1 \<leftarrow> wr_sb sb (\<lambda>y. y\<lparr>sb_usedBlocks := 0\<rparr>) s;
     s2 \<leftarrow> wr_sb sb (\<lambda>y. y\<lparr>sb_numOfBlocks :=
             u32 ((SUPERBLOCK_SIZE L - sizeof_superblockHeader L) div block_stride L class)\<rparr>) s1;
     let s3 = s2\<lparr>held := held s2 - {SuperblockLock sb}\<rparr>;
     s4 \<leftarrow> wr_sb sb (\<lambda>y. y\<lparr>freeList := sb + sizeof_superblockHeader L\<rparr>) s3;
     x \<leftarrow> rd_sb s4 sb;
     Some (s4\<lparr>blocks := init_blocks L sb class (sb_numOfBlocks x) (freeList x) (blocks s4)\<rparr>) }"

subsection \<open>Taking a block from a superblock\<close>

text \<open>
  Lines 261-264, 283-286 and 304-307: the head of the free list of \<open>superblock\<close> is
  replaced by its successor, \<open>block\<close> is marked as used and the counter of the superblock
  is incremented.
\<close>

definition take_block :: "addr \<Rightarrow> addr \<Rightarrow> state \<Rightarrow> state option" where
  "take_block superblock block s = do {
     x \<leftarrow> rd_sb s superblock;
     hb \<leftarrow> rd_blk s (freeList x);
     s1 \<leftarrow> wr_sb superblock (\<lambda>y. y\<lparr>freeList := b_next hb\<rparr>) s;
     s2 \<leftarrow> wr_blk block (\<lambda>y. y\<lparr>inUse := 1\<rparr>) s1;
     wr_sb superblock (\<lambda>y. y\<lparr>sb_usedBlocks := u32 (sb_usedBlocks y + 1)\<rparr>) s2 }"

text \<open>Lines 311-322: put the superblock at the tail of the class.\<close>

definition list_append_tail :: "nat \<times> nat \<Rightarrow> addr \<Rightarrow> state \<Rightarrow> state option" where
  "list_append_tail sc superblock s = do {
     l \<leftarrow> rd_class s sc;
     s9 \<leftarrow> (if tail l \<noteq> 0
             then wr_sb (tail l) (\<lambda>y. y\<lparr>sb_next := superblock\<rparr>) s
             else wr_class sc (\<lambda>l. l\<lparr>head := superblock\<rparr>) s);
     l9 \<leftarrow> rd_class s9 sc;
     s10 \<leftarrow> wr_sb superblock (\<lambda>y. y\<lparr>sb_prev := tail l9\<rparr>) s9;
     s11 \<leftarrow> wr_class sc (\<lambda>l. l\<lparr>tail := superblock\<rparr>) s10;
     wr_sb superblock (\<lambda>y. y\<lparr>sb_next := 0\<rparr>) s11 }"

subsection \<open>malloc (lines 230-334)\<close>

text \<open>Lines 240-250: a large block comes from the operating system.\<close>

definition malloc_large :: "platform \<Rightarrow> addr \<Rightarrow> nat \<Rightarrow> state \<Rightarrow> (addr \<times> state) option" where
  "malloc_large L os sz s =
     (let p = os; s1 = fetch_memory L os (size_t L (sz + sizeof_blockHeader L)) s
      in if p = 0 then Some (0, s1)
         else Some (p + sizeof_blockHeader L,
                s1\<lparr>blocks := (blocks s1)(p \<mapsto> zero_block\<lparr>blockSize := u32 sz\<rparr>)\<rparr>))"

text \<open>Lines 256-273: a free block was found in the heap of the thread.\<close>

definition malloc_fast :: "platform \<Rightarrow> nat \<Rightarrow> nat \<Rightarrow> addr \<Rightarrow> state \<Rightarrow> (addr \<times> state) option" where
  "malloc_fast L heap class block s = do {
     b \<leftarrow> rd_blk s block;
     let superblock = parentSuperblock b;
     s3 \<leftarrow> take_block superblock block s;
     s4 \<leftarrow> wr_class (heap, class) (\<lambda>l. l\<lparr>sc_usedBlocks := u32 (sc_usedBlocks l + 1)\<rparr>) s3;
     s5 \<leftarrow> rise_loop (heap, class) superblock s4;
     s6 \<leftarrow> mutex_unlock (ClassLock heap class) s5;
     Some (block + sizeof_blockHeader L, s6) }"

text \<open>Lines 279-294: the head superblock of the global heap is taken over.\<close>

definition malloc_transfer ::
  "platform \<Rightarrow> nat \<Rightarrow> nat \<Rightarrow> addr \<Rightarrow> state \<Rightarrow> (addr \<times> state) option" where
  "malloc_transfer L heap class superblock s = do {
     x \<leftarrow> rd_sb s superblock;
     let block = freeList x;
     s3 \<leftarrow> take_block superblock block s;
     s4 \<leftarrow> wr_class (NUM_OF_CPUS, class)
             (\<lambda>l. l\<lparr>sc_usedBlocks := u32 (sc_usedBlocks l + 1)\<rparr>) s3;
     s5 \<leftarrow> move_superblock superblock NUM_OF_CPUS heap class s4;
     s6 \<leftarrow> mutex_unlock (ClassLock NUM_OF_CPUS class) s5;
     s7 \<leftarrow> mutex_unlock (ClassLock heap class) s6;
     Some (block + sizeof_blockHeader L, s7) }"

text \<open>
  Lines 297-333: a new superblock. \<^verbatim>\<open>init_superblock\<close> is called on the answer of
  \<^verbatim>\<open>fetch_memory\<close> before line 299 compares it with \<^verbatim>\<open>NULL\<close>. A mapped region reads as
  a header filled with zeros.
\<close>

definition malloc_grow :: "platform \<Rightarrow> addr \<Rightarrow> nat \<Rightarrow> nat \<Rightarrow> state \<Rightarrow> (addr \<times> state) option" where
  "malloc_grow L os heap class s = do {
     let superblock = os;
     let s0 = fetch_memory L os (SUPERBLOCK_SIZE L) s;
     let s0 = (if superblock \<noteq> 0
                then s0\<lparr>sbs := (sbs s0)(superblock \<mapsto> zero_superblock)\<rparr> else s0);
     s1 \<leftarrow> init_superblock L superblock class s0;
     if superblock \<noteq> 0 then do {
       s2 \<leftarrow> wr_sb superblock (\<lambda>y. y\<lparr>parentHeap := Some heap\<rparr>) s1;
       x \<leftarrow> rd_sb s2 superblock;
       let block = freeList x;
       s5 \<leftarrow> take_block superblock block s2;
       s6 \<leftarrow> wr_class (heap, class) (\<lambda>l. l\<lparr>sc_usedBlocks := u32 (sc_usedBlocks l + 1)\<rparr>) s5;
       x6 \<leftarrow> rd_sb s6 superblock;
       s7 \<leftarrow> wr_class (heap, class)
               (\<lambda>l. l\<lparr>sc_numOfBlocks := u32 (sc_numOfBlocks l + sb_numOfBlocks x6)\<rparr>) s6;
       s8 \<leftarrow> wr_sb superblock (\<lambda>y. y\<lparr>parentHeap := Some heap\<rparr>) s7;
       s12 \<leftarrow> list_append_tail (heap, class) superblock s8;
       s13 \<leftarrow> rise_loop (heap, class) superblock s12;
       s14 \<leftarrow> mutex_unlock (ClassLock heap class) s13;
       s15 \<leftarrow> mutex_unlock (ClassLock NUM_OF_CPUS class) s14;
       Some (block + sizeof_blockHeader L, s15) }
     else Some (0, s1) }"

text \<open>
  \<open>malloc L os tid sz s\<close>: \<open>os\<close> is the answer \<^verbatim>\<open>fetch_memory\<close> gives if it is called
  (at most once), \<open>tid\<close> the value of \<^verbatim>\<open>pthread_self()\<close>. The result is the returned
  pointer, 0 for \<^verbatim>\<open>NULL\<close>, and the new state.
\<close>

definition malloc :: "platform \<Rightarrow> addr \<Rightarrow> nat \<Rightarrow> nat \<Rightarrow> state \<Rightarrow> (addr \<times> state) option" where
  "malloc L os tid sz s0 = do {
     let s = (if \<not> isInitialized s0 then (init s0)\<lparr>isInitialized := True\<rparr> else s0);
     if sz > SIZE_THRESHOLD L then malloc_large L os sz s
     else do {
       class \<leftarrow> int_ceil_log2 sz;
       let heap = HASH tid;
       _ \<leftarrow> rd_class s (heap, class);
       s1 \<leftarrow> mutex_lock (ClassLock heap class) s;
       block \<leftarrow> search_sizeclass (heap, class) s1;
       if block \<noteq> 0 then malloc_fast L heap class block s1
       else do {
         s2 \<leftarrow> mutex_lock (ClassLock NUM_OF_CPUS class) s1;
         g \<leftarrow> rd_class s2 (NUM_OF_CPUS, class);
         let superblock = head g;
         if superblock \<noteq> 0 then malloc_transfer L heap class superblock s2
         else malloc_grow L os heap class s2 } } }"

subsection \<open>free (lines 337-387)\<close>

text \<open>The test of line 377 on the size class \<open>sc\<close> and the superblock \<open>sb\<close>.\<close>

definition invariant_broken :: "sizeClass \<Rightarrow> superblockHeader \<Rightarrow> bool" where
  "invariant_broken sc sb \<longleftrightarrow>
     sc_usedBlocks sc < u32_sub (sc_numOfBlocks sc) (u32 (K * sb_numOfBlocks sb)) \<and>
     below_fraction (sc_usedBlocks sc) (sc_numOfBlocks sc)"

text \<open>
  Lines 359-365: the block goes to the head of the free list of its superblock, and the
  counter of the superblock is decremented.
\<close>

definition release_block :: "addr \<Rightarrow> addr \<Rightarrow> state \<Rightarrow> state option" where
  "release_block sb block s = do {
     s4 \<leftarrow> wr_blk block (\<lambda>y. y\<lparr>inUse := 0\<rparr>) s;
     x4 \<leftarrow> rd_sb s4 sb;
     s5 \<leftarrow> wr_blk block (\<lambda>y. y\<lparr>b_next := freeList x4\<rparr>) s4;
     s6 \<leftarrow> wr_sb sb (\<lambda>y. y\<lparr>freeList := block\<rparr>) s5;
     wr_sb sb (\<lambda>y. y\<lparr>sb_usedBlocks := u32_sub (sb_usedBlocks y) 1\<rparr>) s6 }"

definition free_small :: "platform \<Rightarrow> addr \<Rightarrow> state \<Rightarrow> state option" where
  "free_small L block s = do {
     b \<leftarrow> rd_blk s block;
     let sb = parentSuperblock b;
     class \<leftarrow> int_log2 (blockSize b);
     x \<leftarrow> rd_sb s sb;
     heap \<leftarrow> parentHeap x;
     _ \<leftarrow> rd_class s (heap, class);
     s1 \<leftarrow> mutex_lock (SuperblockLock sb) s;
     s2 \<leftarrow> mutex_lock (ClassLock heap class) s1;
     s3 \<leftarrow> mutex_unlock (SuperblockLock sb) s2;
     s7 \<leftarrow> release_block sb block s3;
     s8 \<leftarrow> wr_class (heap, class) (\<lambda>l. l\<lparr>sc_usedBlocks := u32_sub (sc_usedBlocks l) 1\<rparr>) s7;
     s9 \<leftarrow> sink_loop (heap, class) sb s8;
     sc \<leftarrow> rd_class s9 (heap, class);
     x9 \<leftarrow> rd_sb s9 sb;
     s10 \<leftarrow> (if heap \<noteq> NUM_OF_CPUS \<and> invariant_broken sc x9 then do {
                t1 \<leftarrow> mutex_lock (ClassLock NUM_OF_CPUS class) s9;
                let badSB = tail sc;
                t2 \<leftarrow> move_superblock badSB heap NUM_OF_CPUS class t1;
                mutex_unlock (ClassLock NUM_OF_CPUS class) t2 }
              else Some s9);
     mutex_unlock (ClassLock heap class) s10 }"

text \<open>
  \<^verbatim>\<open>munmap\<close> is recorded; it releases the pages of the range, which starts at a page
  boundary as every answer of \<^verbatim>\<open>mmap\<close> does, and the header of the region is gone.
\<close>

definition free :: "platform \<Rightarrow> addr \<Rightarrow> state \<Rightarrow> state option" where
  "free L ptr s =
     (if ptr \<noteq> 0 then do {
        let block = ptr - sizeof_blockHeader L;
        b \<leftarrow> rd_blk s block;
        if blockSize b > SUPERBLOCK_SIZE L div 2
        then Some (s\<lparr>os_calls := os_calls s @
                      [Munmap block (size_t L (blockSize b + sizeof_blockHeader L))],
                    blocks := (blocks s)(block := None),
                    bytes := (\<lambda>x. if block \<le> x \<and> x < block +
                                   page_round L (size_t L (blockSize b + sizeof_blockHeader L))
                                 then None else bytes s x)\<rparr>)
        else free_small L block s }
      else Some s)"

subsection \<open>calloc and realloc (lines 390-411)\<close>

text \<open>
  \<^verbatim>\<open>memset\<close> and \<^verbatim>\<open>memcpy\<close> of the C library: an access to an address that is not
  mapped is a fault, and the call does not return.
\<close>

definition mapped_range :: "state \<Rightarrow> addr \<Rightarrow> nat \<Rightarrow> bool" where
  "mapped_range s p n \<longleftrightarrow> (\<forall>x\<in>{p..<p + n}. bytes s x \<noteq> None)"

definition memset :: "addr \<Rightarrow> nat \<Rightarrow> nat \<Rightarrow> state \<Rightarrow> state option" where
  "memset p v n s =
     (if mapped_range s p n
      then Some (s\<lparr>bytes := (\<lambda>x. if p \<le> x \<and> x < p + n then Some v else bytes s x)\<rparr>)
      else None)"

definition memcpy :: "addr \<Rightarrow> addr \<Rightarrow> nat \<Rightarrow> state \<Rightarrow> state option" where
  "memcpy dst src n s =
     (if mapped_range s dst n \<and> mapped_range s src n
      then Some (s\<lparr>bytes := (\<lambda>x. if dst \<le> x \<and> x < dst + n
                                   then bytes s (src + (x - dst)) else bytes s x)\<rparr>)
      else None)"

definition calloc :: "platform \<Rightarrow> addr \<Rightarrow> nat \<Rightarrow> nat \<Rightarrow> nat \<Rightarrow> state \<Rightarrow> (addr \<times> state) option" where
  "calloc L os tid num sz s = do {
     (p, s1) \<leftarrow> malloc L os tid (size_t L (num * sz)) s;
     if p \<noteq> 0 then do {
       s2 \<leftarrow> memset p 0 (size_t L (num * sz)) s1;
       Some (p, s2) }
     else Some (p, s1) }"

definition realloc :: "platform \<Rightarrow> addr \<Rightarrow> nat \<Rightarrow> addr \<Rightarrow> nat \<Rightarrow> state \<Rightarrow> (addr \<times> state) option" where
  "realloc L os tid ptr sz s = do {
     (newPtr, s1) \<leftarrow> malloc L os tid sz s;
     if newPtr \<noteq> 0 then do {
       s2 \<leftarrow> memcpy newPtr ptr sz s1;
       s3 \<leftarrow> free L ptr s2;
       Some (newPtr, s3) }
     else Some (newPtr, s1) }"

subsection \<open>A concrete platform\<close>

text \<open>
  Linux on x86-64 with glibc: \<^verbatim>\<open>size_t\<close> has 64 bits, a pointer 8 bytes and
  \<^verbatim>\<open>pthread_mutex_t\<close> 40 bytes, so a block header takes 24 bytes and a superblock
  header 80 bytes; a page has 4096 bytes. The superblock has the 64K that the comment of
  line 203 names.
\<close>

definition lp64 :: platform where
  "lp64 = \<lparr>SUPERBLOCK_SIZE = 65536, sizeof_superblockHeader = 80,
     sizeof_blockHeader = 24, size_t_bits = 64, page_size = 4096\<rparr>"

subsection \<open>What the list operations leave alone\<close>

definition rest ::
  "state \<Rightarrow> (addr \<rightharpoonup> blockHeader) \<times> (addr \<rightharpoonup> nat) \<times> lock set \<times> os_call list \<times> bool" where
  "rest s = (blocks s, bytes s, held s, os_calls s, isInitialized s)"

text \<open>The fields that no operation on the lists writes.\<close>

definition fixed :: "state \<Rightarrow> (addr \<Rightarrow> nat option) \<times> (nat \<Rightarrow> nat \<Rightarrow> nat) \<times> (nat \<Rightarrow> nat)" where
  "fixed s = ((\<lambda>a. map_option sb_numOfBlocks (sbs s a)),
              (\<lambda>h c. sc_size (classes (heaps s h) c)),
              (\<lambda>h. heap_id (heaps s h)))"

subsection \<open>Example states\<close>

text \<open>After \<^verbatim>\<open>malloc(40000)\<close> and after \<^verbatim>\<open>malloc(32768)\<close> from a cold start on \<open>lp64\<close>.\<close>

definition st_large :: state where
  "st_large = snd (the (malloc lp64 1048576 0 40000 (cold_start Map.empty)))"

definition st_small :: state where
  "st_small = snd (the (malloc lp64 1048576 0 32768 (cold_start Map.empty)))"

subsection \<open>Sequences of calls\<close>

datatype call = Malloc addr nat nat | Free addr

text \<open>
  \<open>Malloc os tid sz\<close> is a call of \<open>malloc\<close> by thread \<open>tid\<close> during which the operating
  system would answer \<open>os\<close>; the returned pointer is dropped.
\<close>

fun run :: "platform \<Rightarrow> call list \<Rightarrow> state \<Rightarrow> state option" where
  "run L [] s = Some s"
| "run L (Malloc os tid sz # cs) s =
     (case malloc L os tid sz s of None \<Rightarrow> None | Some (p, s') \<Rightarrow> run L cs s')"
| "run L (Free p # cs) s =
     (case free L p s of None \<Rightarrow> None | Some s' \<Rightarrow> run L cs s')"

text \<open>
  Three requests of 32768 bytes (class 15, one block in each superblock), then the free
  of the first and of the second block, all by thread 0.
\<close>

definition eviction_calls :: "call list" where
  "eviction_calls = [Malloc 1048576 0 32768, Malloc 2097152 0 32768, Malloc 3145728 0 32768,
     Free 1048680, Free 2097256]"

text \<open>
  The emptiness invariant in the words of the specification, for a class with \<open>u\<close> used
  blocks out of \<open>n\<close> and superblocks of \<open>S\<close> blocks: \<open>u \<ge> n - K * S\<close> or
  \<open>u \<ge> (1 - F) * n\<close>, with \<open>F\<close> = 0.4.
\<close>

definition emptiness_invariant :: "nat \<Rightarrow> nat \<Rightarrow> nat \<Rightarrow> bool" where
  "emptiness_invariant u n S \<longleftrightarrow> int n - int (K * S) \<le> int u \<or> 6 * n \<le> 10 * u"

subsection \<open>Superblock lists as lists of addresses\<close>

text \<open>
  The list of a size class, read from \<open>head\<close> through \<open>sb_next\<close> to \<^verbatim>\<open>NULL\<close>, as a list
  of addresses: \<open>dll s hc xs\<close> says that the class \<open>hc\<close> (a heap index and a class
  index) holds exactly the superblocks \<open>xs\<close>, in this order, with the links of both
  directions and the tail in place.
\<close>

definition hd0 :: "addr list \<Rightarrow> addr" where
  "hd0 xs = (case xs of [] \<Rightarrow> 0 | x # _ \<Rightarrow> x)"

definition last0 :: "addr list \<Rightarrow> addr" where
  "last0 xs = (if xs = [] then 0 else last xs)"

definition nxt :: "addr list \<Rightarrow> addr \<Rightarrow> addr" where
  "nxt xs y = hd0 (tl (dropWhile (\<lambda>z. z \<noteq> y) xs))"

definition prv :: "addr list \<Rightarrow> addr \<Rightarrow> addr" where
  "prv xs y = last0 (takeWhile (\<lambda>z. z \<noteq> y) xs)"

definition cls_of :: "state \<Rightarrow> nat \<times> nat \<Rightarrow> sizeClass" where
  "cls_of s hc = classes (heaps s (fst hc)) (snd hc)"

definition in_range :: "nat \<times> nat \<Rightarrow> bool" where
  "in_range hc \<longleftrightarrow> fst hc < NUM_OF_HEAPS \<and> snd hc < NUM_OF_CLASSES"

definition links :: "(addr \<rightharpoonup> superblockHeader) \<Rightarrow> addr list \<Rightarrow> bool" where
  "links m xs \<longleftrightarrow> (\<forall>y\<in>set xs. case m y of None \<Rightarrow> False
     | Some x \<Rightarrow> sb_next x = nxt xs y \<and> sb_prev x = prv xs y)"

definition dll :: "state \<Rightarrow> nat \<times> nat \<Rightarrow> addr list \<Rightarrow> bool" where
  "dll s hc xs \<longleftrightarrow> distinct xs \<and> 0 \<notin> set xs \<and> head (cls_of s hc) = hd0 xs \<and>
     tail (cls_of s hc) = last0 xs \<and> links (sbs s) xs"

definition used :: "state \<Rightarrow> addr \<Rightarrow> nat" where
  "used s a = (case sbs s a of None \<Rightarrow> 0 | Some x \<Rightarrow> sb_usedBlocks x)"

definition fullest_first :: "state \<Rightarrow> addr list \<Rightarrow> bool" where
  "fullest_first s xs \<longleftrightarrow> sorted_wrt (\<lambda>a b. used s b \<le> used s a) xs"

definition sb_core :: "superblockHeader \<Rightarrow> nat \<times> nat \<times> addr \<times> nat option" where
  "sb_core x = (sb_usedBlocks x, sb_numOfBlocks x, freeList x, parentHeap x)"

definition sc_core :: "sizeClass \<Rightarrow> nat \<times> nat \<times> nat" where
  "sc_core c = (sc_size c, sc_usedBlocks c, sc_numOfBlocks c)"

text \<open>\<open>relink hc X s s'\<close>: only links of superblocks in \<open>X\<close> and head and tail of class \<open>hc\<close> differ.\<close>

definition relink :: "nat \<times> nat \<Rightarrow> addr set \<Rightarrow> state \<Rightarrow> state \<Rightarrow> bool" where
  "relink hc X s s' \<longleftrightarrow> rest s' = rest s \<and>
     (\<forall>y. map_option sb_core (sbs s' y) = map_option sb_core (sbs s y)) \<and>
     (\<forall>y. y \<notin> X \<longrightarrow> sbs s' y = sbs s y) \<and>
     (\<forall>k. k \<noteq> hc \<longrightarrow> cls_of s' k = cls_of s k) \<and>
     sc_core (cls_of s' hc) = sc_core (cls_of s hc) \<and>
     (\<forall>h. heap_id (heaps s' h) = heap_id (heaps s h))"

text \<open>
  What an operation on the links leaves alone: the counters, the free-list head and the
  heap of every superblock, the size and the counters of every class, every class that is
  not in \<open>C\<close>, and the identifier of every heap.
\<close>

definition sb_data :: "superblockHeader \<Rightarrow> nat \<times> nat \<times> addr" where
  "sb_data x = (sb_usedBlocks x, sb_numOfBlocks x, freeList x)"

definition keep :: "(nat \<times> nat) set \<Rightarrow> state \<Rightarrow>
    (addr \<Rightarrow> (nat \<times> nat \<times> addr \<times> nat option) option) \<times> (nat \<times> nat \<Rightarrow> nat \<times> nat \<times> nat) \<times>
    (nat \<times> nat \<Rightarrow> sizeClass option) \<times> (nat \<Rightarrow> nat)" where
  "keep C s = ((\<lambda>a. map_option sb_core (sbs s a)),
               (\<lambda>k. sc_core (cls_of s k)),
               (\<lambda>k. if k \<in> C then None else Some (cls_of s k)),
               (\<lambda>h. heap_id (heaps s h)))"

section \<open>Basic facts\<close>

lemma bindE:
  "Option.bind m k = Some r \<Longrightarrow> (\<And>y. m = Some y \<Longrightarrow> k y = Some r \<Longrightarrow> P) \<Longrightarrow> P"
  by (cases m) auto

lemma wr_sb_null: "wr_sb 0 f s = None"
  by (simp add: wr_sb_def rd_sb_def)

lemma init_superblock_null: "init_superblock L 0 class s = None"
  by (simp add: init_superblock_def wr_sb_null)

lemma malloc_grow_null: "malloc_grow L 0 heap class s = None"
  by (simp add: malloc_grow_def init_superblock_null Let_def)

lemma ilog2_15: "ilog2 15 = 3"
  by (simp add: ilog2.simps)

lemma ilog2_le: "0 < m \<Longrightarrow> 2 ^ ilog2 m \<le> m"
proof (induction m rule: ilog2.induct)
  case (1 n)
  show ?case
  proof (cases "n < 2")
    case True
    with 1(2) show ?thesis
      by (subst ilog2.simps) simp
  next
    case False
    then have "2 ^ ilog2 (n div 2) \<le> n div 2"
      using 1(1) by simp
    then have "2 * 2 ^ ilog2 (n div 2) \<le> n"
      by linarith
    then show ?thesis
      using False by (subst ilog2.simps) simp
  qed
qed

lemma round_bits_small: "m < 2 ^ p \<Longrightarrow> round_bits p m = m"
  by (simp add: round_bits_def)

lemma round_bits_pos:
  assumes "0 < m" and "0 < p"
  shows "0 < round_bits p m"
proof (cases "m < 2 ^ p")
  case True
  then show ?thesis
    using assms(1) by (simp add: round_bits_def)
next
  case False
  let ?sh = "Suc (ilog2 m) - p"
  have "?sh \<le> ilog2 m"
    using assms(2) by simp
  then have "(2 :: nat) ^ ?sh \<le> 2 ^ ilog2 m"
    by (simp add: power_increasing)
  then have "2 ^ ?sh \<le> m"
    using ilog2_le [OF assms(1)] by linarith
  then have "0 < m div 2 ^ ?sh"
    by (simp add: div_greater_zero_iff)
  then show ?thesis
    using False by (simp add: round_bits_def Let_def)
qed

lemma below_fraction_zero: "0 < n \<Longrightarrow> below_fraction 0 n"
  using round_bits_pos [of "5404319552844595 * n" 53]
  by (simp add: below_fraction_def round_bits_small)

lemma below_fraction_1_2: "below_fraction 1 2"
  by (simp add: below_fraction_def round_bits_def Let_def ilog2.simps)

lemma below_fraction_1_3: "below_fraction 1 3"
  by (simp add: below_fraction_def round_bits_def Let_def ilog2.simps)

lemma below_fraction_2_3: "\<not> below_fraction 2 3"
  by (simp add: below_fraction_def round_bits_def Let_def ilog2.simps)

lemma below_fraction_Suc_2: "below_fraction (Suc 0) 2"
  using below_fraction_1_2 by simp

lemma below_fraction_Suc_3: "below_fraction (Suc 0) 3"
  using below_fraction_1_3 by simp

lemma search_loop_null: "search_loop s 0 = Some 0"
  by (subst search_loop.simps) simp

subsection \<open>The list operations change superblock headers and classes only\<close>

lemma wr_sb_rest: "wr_sb a f s = Some s' \<Longrightarrow> rest s' = rest s"
  by (auto simp: wr_sb_def rest_def split: option.splits)

lemma wr_class_rest: "wr_class l f s = Some s' \<Longrightarrow> rest s' = rest s"
  by (auto simp: wr_class_def rest_def split: option.splits prod.splits)

lemma if_wr_sb_rest: "(if c then wr_sb a f s else Some s) = Some s' \<Longrightarrow> rest s' = rest s"
  by (auto split: if_splits dest: wr_sb_rest)

lemma if_wr_class_rest: "(if c then wr_class a f s else Some s) = Some s' \<Longrightarrow> rest s' = rest s"
  by (auto split: if_splits dest: wr_class_rest)

lemma if_wr_sb_class_rest:
  "(if c then wr_sb a f s else wr_class l g s) = Some s' \<Longrightarrow> rest s' = rest s"
  by (auto split: if_splits dest: wr_sb_rest wr_class_rest)

lemma if_rd_wr_class_rest:
  "(if c then Option.bind (rd_sb s a) (\<lambda>x. wr_class l (f x) s) else Some s) = Some s'
   \<Longrightarrow> rest s' = rest s"
  by (auto split: if_splits dest: wr_class_rest elim!: bindE)

lemmas rest_steps = wr_sb_rest wr_class_rest if_wr_sb_rest if_wr_class_rest
  if_wr_sb_class_rest if_rd_wr_class_rest

lemma swap_superblocks_rest: "swap_superblocks l sb s = Some s' \<Longrightarrow> rest s' = rest s"
  unfolding swap_superblocks_def Let_def
  apply (erule bindE)
  subgoal for x
    apply (cases "sb_next x = 0")
     apply simp
    apply (simp only: if_True if_False simp_thms)
    apply (erule bindE)+
    apply (drule rest_steps)+
    apply simp
    done
  done

lemma sink_loop_rest: "sink_loop l sb s = Some s' \<Longrightarrow> rest s' = rest s"
proof (induction rule: sink_loop.raw_induct[rotated 1, consumes 1])
  case (1 f l sb s s')
  then show ?case
    by (cases l) (auto simp: bind_eq_Some_conv split: if_splits dest!: swap_superblocks_rest)
qed

lemma rise_loop_rest: "rise_loop l sb s = Some s' \<Longrightarrow> rest s' = rest s"
proof (induction rule: rise_loop.raw_induct[rotated 1, consumes 1])
  case (1 f l sb s s')
  then show ?case
    by (cases l) (auto simp: bind_eq_Some_conv split: if_splits dest!: swap_superblocks_rest)
qed

lemma list_remove_rest: "list_remove l sb s = Some s' \<Longrightarrow> rest s' = rest s"
  unfolding list_remove_def
  apply (erule bindE)+
  apply (drule rest_steps)+
  apply simp
  done

lemma list_push_head_rest: "list_push_head l sb s = Some s' \<Longrightarrow> rest s' = rest s"
  unfolding list_push_head_def
  apply (erule bindE)+
  apply (drule rest_steps)+
  apply simp
  done

lemma list_append_tail_rest: "list_append_tail l sb s = Some s' \<Longrightarrow> rest s' = rest s"
  unfolding list_append_tail_def
  apply (erule bindE)+
  apply (drule rest_steps)+
  apply simp
  done

lemma move_statistics_rest: "move_statistics sb l k s = Some s' \<Longrightarrow> rest s' = rest s"
  unfolding move_statistics_def
  apply (erule bindE)+
  apply (drule rest_steps)+
  apply simp
  done

lemma move_superblock_rest: "move_superblock sb src dst c s = Some s' \<Longrightarrow> rest s' = rest s"
  unfolding move_superblock_def
  apply (erule bindE)+
  apply (drule rest_steps sink_loop_rest list_remove_rest list_push_head_rest move_statistics_rest)+
  apply simp
  done

subsection \<open>malloc returns NULL on the large path only\<close>

lemma rd_blk_nonnull: "rd_blk s a = Some b \<Longrightarrow> a \<noteq> 0"
  by (auto simp: rd_blk_def split: if_splits)

lemma rd_sb_nonnull: "rd_sb s a = Some b \<Longrightarrow> a \<noteq> 0"
  by (auto simp: rd_sb_def split: if_splits)

lemma take_block_nonnull: "take_block sb block s = Some s' \<Longrightarrow> block \<noteq> 0"
  unfolding take_block_def
  apply (erule bindE)+
  apply (auto simp: wr_blk_def dest: rd_blk_nonnull split: option.splits)
  done

lemma malloc_fast_nonnull: "malloc_fast L h c block s = Some (p, s') \<Longrightarrow> p \<noteq> 0"
  unfolding malloc_fast_def Let_def
  apply (erule bindE)+
  apply (drule take_block_nonnull)
  apply simp
  done

lemma malloc_transfer_nonnull: "malloc_transfer L h c sb s = Some (p, s') \<Longrightarrow> p \<noteq> 0"
  unfolding malloc_transfer_def Let_def
  apply (erule bindE)+
  apply (drule take_block_nonnull)
  apply simp
  done

lemma malloc_grow_nonnull: "malloc_grow L os h c s = Some (p, s') \<Longrightarrow> p \<noteq> 0"
proof (cases "os = 0")
  case True
  assume "malloc_grow L os h c s = Some (p, s')"
  with True show ?thesis by (simp add: malloc_grow_null)
next
  case False
  assume "malloc_grow L os h c s = Some (p, s')"
  with False show ?thesis
    unfolding malloc_grow_def Let_def
    apply (simp only: if_True if_False simp_thms)
    apply (erule bindE)+
    apply (drule take_block_nonnull)
    apply simp
    done
qed

lemma malloc_null:
  assumes "malloc L os tid sz s = Some (0, s1)"
  shows "SIZE_THRESHOLD L < sz \<and> os = 0 \<and>
         s1 = fetch_memory L 0 (size_t L (sz + sizeof_blockHeader L))
                (if \<not> isInitialized s then (init s)\<lparr>isInitialized := True\<rparr> else s)"
proof (cases "SIZE_THRESHOLD L < sz")
  case True
  with assms show ?thesis
    by (auto simp: malloc_def malloc_large_def Let_def split: if_splits)
next
  case False
  with assms have False
    unfolding malloc_def Let_def
    apply (simp only: if_False)
    apply (erule bindE)+
    apply (auto split: if_splits dest: malloc_fast_nonnull malloc_transfer_nonnull malloc_grow_nonnull elim!: bindE)
    done
  then show ?thesis ..
qed

subsection \<open>What free changes\<close>

lemma mutex_lock_eq: "mutex_lock l s = Some s' \<Longrightarrow> l \<notin> held s \<and> s' = s\<lparr>held := insert l (held s)\<rparr>"
  by (auto simp: mutex_lock_def split: if_splits)

lemma mutex_unlock_eq: "mutex_unlock l s = Some s' \<Longrightarrow> l \<in> held s \<and> s' = s\<lparr>held := held s - {l}\<rparr>"
  by (auto simp: mutex_unlock_def split: if_splits)

lemma wr_blk_eq:
  "wr_blk a f s = Some s' \<Longrightarrow> \<exists>x. rd_blk s a = Some x \<and> s' = s\<lparr>blocks := (blocks s)(a \<mapsto> f x)\<rparr>"
  by (auto simp: wr_blk_def split: option.splits)

lemma evict_rest:
  "(if c then do { t1 \<leftarrow> mutex_lock l s; t2 \<leftarrow> move_superblock b h g k t1; mutex_unlock l t2 }
    else Some s) = Some s' \<Longrightarrow> rest s' = rest s"
  by (auto split: if_splits elim!: bindE dest!: mutex_lock_eq mutex_unlock_eq move_superblock_rest
      simp: rest_def)

lemma release_block_eq:
  "release_block sb block s = Some s' \<Longrightarrow>
   \<exists>b hd. rd_blk s block = Some b \<and> blocks s' = (blocks s)(block \<mapsto> b\<lparr>inUse := 0, b_next := hd\<rparr>) \<and>
     bytes s' = bytes s \<and> os_calls s' = os_calls s \<and> isInitialized s' = isInitialized s \<and>
     held s' = held s"
  unfolding release_block_def
  apply (elim bindE)
  apply (drule wr_blk_eq rest_steps)+
  apply (auto simp: rest_def rd_blk_def split: if_splits)
  done

lemma free_small_blocks:
  assumes "free_small L block s = Some s'"
  shows "\<exists>b hd. rd_blk s block = Some b \<and>
           blocks s' = (blocks s)(block \<mapsto> b\<lparr>inUse := 0, b_next := hd\<rparr>) \<and>
           bytes s' = bytes s \<and> os_calls s' = os_calls s \<and> isInitialized s' = isInitialized s \<and>
           held s' = held s"
  using assms unfolding free_small_def Let_def
  apply (elim bindE)
  apply (drule mutex_lock_eq mutex_unlock_eq release_block_eq rest_steps sink_loop_rest evict_rest)+
  apply (auto simp: rest_def rd_blk_def split: if_splits)
  done

subsection \<open>Fields that stay fixed\<close>

lemma wr_sb_fixed:
  "wr_sb a f s = Some s' \<Longrightarrow> (\<forall>x. sb_numOfBlocks (f x) = sb_numOfBlocks x) \<longrightarrow> fixed s' = fixed s"
  by (auto simp: wr_sb_def fixed_def rd_sb_def split: option.splits if_splits intro!: ext)

lemma wr_class_fixed:
  "wr_class l f s = Some s' \<Longrightarrow> (\<forall>x. sc_size (f x) = sc_size x) \<longrightarrow> fixed s' = fixed s"
  by (auto simp: wr_class_def fixed_def rd_class_def split: option.splits if_splits prod.splits intro!: ext)

lemma if_wr_sb_fixed:
  "(if c then wr_sb a f s else Some s) = Some s' \<Longrightarrow>
   (\<forall>x. sb_numOfBlocks (f x) = sb_numOfBlocks x) \<longrightarrow> fixed s' = fixed s"
  by (auto split: if_splits dest: wr_sb_fixed)

lemma if_wr_class_fixed:
  "(if c then wr_class a f s else Some s) = Some s' \<Longrightarrow>
   (\<forall>x. sc_size (f x) = sc_size x) \<longrightarrow> fixed s' = fixed s"
  by (auto split: if_splits dest: wr_class_fixed)

lemma if_wr_sb_class_fixed:
  "(if c then wr_sb a f s else wr_class l g s) = Some s' \<Longrightarrow>
   (\<forall>x. sb_numOfBlocks (f x) = sb_numOfBlocks x) \<and> (\<forall>x. sc_size (g x) = sc_size x)
   \<longrightarrow> fixed s' = fixed s"
  by (auto split: if_splits dest: wr_sb_fixed wr_class_fixed)

lemma if_rd_wr_class_fixed:
  "(if c then Option.bind (rd_sb s a) (\<lambda>x. wr_class l (f x) s) else Some s) = Some s'
   \<Longrightarrow> (\<forall>x y. sc_size (f x y) = sc_size y) \<longrightarrow> fixed s' = fixed s"
  by (auto split: if_splits dest: wr_class_fixed elim!: bindE)

lemmas fixed_steps = wr_sb_fixed wr_class_fixed if_wr_sb_fixed if_wr_class_fixed
  if_wr_sb_class_fixed if_rd_wr_class_fixed

lemma swap_superblocks_fixed: "swap_superblocks l sb s = Some s' \<Longrightarrow> fixed s' = fixed s"
  unfolding swap_superblocks_def Let_def
  apply (erule bindE)
  subgoal for x
    apply (cases "sb_next x = 0")
     apply simp
    apply (simp only: if_True if_False simp_thms)
    apply (erule bindE)+
    apply (drule fixed_steps)+
    apply simp
    done
  done

lemma sink_loop_fixed: "sink_loop l sb s = Some s' \<Longrightarrow> fixed s' = fixed s"
proof (induction rule: sink_loop.raw_induct[rotated 1, consumes 1])
  case (1 f l sb s s')
  then show ?case
    by (cases l) (auto simp: bind_eq_Some_conv split: if_splits dest!: swap_superblocks_fixed)
qed

lemma list_remove_fixed: "list_remove l sb s = Some s' \<Longrightarrow> fixed s' = fixed s"
  unfolding list_remove_def
  apply (erule bindE)+
  apply (drule fixed_steps)+
  apply simp
  done

lemma list_push_head_fixed: "list_push_head l sb s = Some s' \<Longrightarrow> fixed s' = fixed s"
  unfolding list_push_head_def
  apply (erule bindE)+
  apply (drule fixed_steps)+
  apply simp
  done

lemma move_statistics_fixed: "move_statistics sb l k s = Some s' \<Longrightarrow> fixed s' = fixed s"
  unfolding move_statistics_def
  apply (erule bindE)+
  apply (drule fixed_steps)+
  apply simp
  done

lemma move_superblock_fixed: "move_superblock sb src dst c s = Some s' \<Longrightarrow> fixed s' = fixed s"
  unfolding move_superblock_def
  apply (erule bindE)+
  apply (drule fixed_steps sink_loop_fixed list_remove_fixed list_push_head_fixed move_statistics_fixed)+
  apply simp
  done

lemma mutex_lock_fixed: "mutex_lock l s = Some s' \<Longrightarrow> fixed s' = fixed s"
  by (auto simp: mutex_lock_def fixed_def split: if_splits)

lemma mutex_unlock_fixed: "mutex_unlock l s = Some s' \<Longrightarrow> fixed s' = fixed s"
  by (auto simp: mutex_unlock_def fixed_def split: if_splits)

lemma wr_blk_fixed: "wr_blk a f s = Some s' \<Longrightarrow> fixed s' = fixed s"
  by (auto simp: wr_blk_def fixed_def split: option.splits)

lemma evict_fixed:
  "(if c then do { t1 \<leftarrow> mutex_lock l s; t2 \<leftarrow> move_superblock b h g k t1; mutex_unlock l t2 }
    else Some s) = Some s' \<Longrightarrow> fixed s' = fixed s"
  by (auto split: if_splits elim!: bindE dest!: mutex_lock_fixed mutex_unlock_fixed move_superblock_fixed)

lemma release_block_fixed: "release_block sb block s = Some s' \<Longrightarrow> fixed s' = fixed s"
  unfolding release_block_def
  apply (elim bindE)
  apply (drule wr_blk_fixed fixed_steps)+
  apply simp
  done

lemma free_small_fixed: "free_small L block s = Some s' \<Longrightarrow> fixed s' = fixed s"
  unfolding free_small_def Let_def
  apply (elim bindE)
  apply (drule mutex_lock_fixed mutex_unlock_fixed release_block_fixed fixed_steps sink_loop_fixed evict_fixed)+
  apply simp
  done


lemma memcpy_unmapped:
  "src \<le> x \<Longrightarrow> x < src + n \<Longrightarrow> bytes s x = None \<Longrightarrow> memcpy dst src n s = None"
  by (auto simp: memcpy_def mapped_range_def)

lemma realloc_unmapped:
  "malloc L os tid sz s = Some (p, s1) \<Longrightarrow> p \<noteq> 0 \<Longrightarrow> ptr \<le> x \<Longrightarrow> x < ptr + sz \<Longrightarrow>
   bytes s1 x = None \<Longrightarrow> realloc L os tid ptr sz s = None"
  by (simp add: realloc_def memcpy_unmapped)

subsection \<open>Evaluation on concrete states\<close>

lemmas exec_defs = malloc_def malloc_grow_def malloc_fast_def malloc_transfer_def malloc_large_def
  Let_def cold_start_def init_def lp64_def SIZE_THRESHOLD_def
  int_ceil_log2_def int_log2_def HASH_def NUM_OF_CPUS_def NUM_OF_HEAPS_def NUM_OF_CLASSES_def
  rd_class_def wr_class_def rd_sb_def wr_sb_def rd_blk_def wr_blk_def
  mutex_lock_def mutex_unlock_def search_sizeclass_def zero_class_def zero_superblock_def zero_block_def
  fetch_memory_def init_superblock_def block_stride_def SIZE_OF_CLASS_def u32_def u32_sub_def size_t_def
  free_def free_small_def move_superblock_def list_remove_def list_push_head_def move_statistics_def
  take_block_def release_block_def list_append_tail_def swap_superblocks_def invariant_broken_def below_fraction_zero K_def
  search_loop.simps rise_loop.simps sink_loop.simps

lemma ilog2_32767: "ilog2 32767 = 14"
  by (simp add: ilog2.simps)

lemma ilog2_32768: "ilog2 32768 = 15"
  by (simp add: ilog2.simps)


lemma st_large_eval: "malloc lp64 1048576 0 40000 (cold_start Map.empty) = Some (1048600, st_large)"
  unfolding st_large_def
  by (simp add: malloc_def malloc_large_def Let_def lp64_def SIZE_THRESHOLD_def)

lemma st_large_blocks: "blocks st_large = [1048576 \<mapsto> zero_block\<lparr>blockSize := 40000\<rparr>]"
  unfolding st_large_def
  by (simp add: malloc_def malloc_large_def Let_def lp64_def SIZE_THRESHOLD_def cold_start_def
      fetch_memory_def init_def u32_def)

lemma st_small_block:
  "blocks st_small 1048656 = Some \<lparr>blockSize = 32768, inUse = 1, b_next = 1081448, parentSuperblock = 1048576\<rparr>"
  unfolding st_small_def
  by (simp add: exec_defs ilog2_32767)

lemma free_st_small:
  "free lp64 1048680 st_small \<noteq> None \<and>
   sc_numOfBlocks (classes (heaps st_small 0) 15) = 1 \<and>
   sc_numOfBlocks (classes (heaps (the (free lp64 1048680 st_small)) 0) 15) = 0"
  unfolding st_small_def
  by (simp add: exec_defs ilog2_32767 ilog2_32768)

lemma malloc_st_large_fail:
  "malloc lp64 0 0 50000 st_large = Some (0, fetch_memory lp64 0 (size_t lp64 (50000 + sizeof_blockHeader lp64)) st_large)"
  unfolding st_large_def
  by (simp add: malloc_def malloc_large_def Let_def lp64_def SIZE_THRESHOLD_def cold_start_def fetch_memory_def init_def)

lemma malloc_st_large_ok:
  "malloc lp64 2097152 0 50000 st_large \<noteq> None \<and>
   fst (the (malloc lp64 2097152 0 50000 st_large)) = 2097176"
  unfolding st_large_def
  by (simp add: malloc_def malloc_large_def Let_def lp64_def SIZE_THRESHOLD_def cold_start_def fetch_memory_def init_def)

subsection \<open>One superblock with one block handed out\<close>


lemmas step_defs = Let_def NUM_OF_CPUS_def NUM_OF_HEAPS_def NUM_OF_CLASSES_def
  rd_class_def wr_class_def rd_sb_def wr_sb_def rd_blk_def wr_blk_def
  mutex_lock_def mutex_unlock_def u32_def u32_sub_def take_block_def release_block_def
  list_remove_def list_push_head_def list_append_tail_def move_statistics_def







subsection \<open>Five calls after which the class is still too empty\<close>

lemmas lp64_step_defs = step_defs lp64_def SIZE_THRESHOLD_def HASH_def int_ceil_log2_def int_log2_def
  ilog2_32767 ilog2_32768 search_sizeclass_def search_loop.simps rise_loop.simps sink_loop.simps
  zero_superblock_def fetch_memory_def init_superblock_def block_stride_def SIZE_OF_CLASS_def
  swap_superblocks_def move_superblock_def invariant_broken_def below_fraction_1_2 below_fraction_1_3 below_fraction_2_3 below_fraction_Suc_2 below_fraction_Suc_3 K_def

lemma eviction_step1:
  shows "\<exists>s'. malloc lp64 1048576 0 32768 (cold_start mem) = Some (1048680, s') \<and>
     sbs s' 1048576 = Some \<lparr>sb_usedBlocks = 1, sb_numOfBlocks = 1, freeList = 1081448,
        sb_next = 0, sb_prev = 0, parentHeap = Some 0\<rparr> \<and>
     blocks s' 1048656 = Some \<lparr>blockSize = 32768, inUse = 1, b_next = 1081448, parentSuperblock = 1048576\<rparr> \<and>
     classes (heaps s' 0) 15 = \<lparr>sc_size = 32768, sc_usedBlocks = 1, sc_numOfBlocks = 1,
        head = 1048576, tail = 1048576\<rparr> \<and>
     classes (heaps s' 2) 15 = \<lparr>sc_size = 32768, sc_usedBlocks = 0, sc_numOfBlocks = 0,
        head = 0, tail = 0\<rparr> \<and>
     held s' = {} \<and>
     isInitialized s'"
  by (auto simp add: malloc_def malloc_grow_def lp64_step_defs cold_start_def init_def zero_class_def)

lemma eviction_step2:
  assumes "sbs s 1048576 = Some \<lparr>sb_usedBlocks = 1, sb_numOfBlocks = 1, freeList = 1081448,
        sb_next = 0, sb_prev = 0, parentHeap = Some 0\<rparr>"
    and "blocks s 1048656 = Some \<lparr>blockSize = 32768, inUse = 1, b_next = 1081448, parentSuperblock = 1048576\<rparr>"
    and "classes (heaps s 0) 15 = \<lparr>sc_size = 32768, sc_usedBlocks = 1, sc_numOfBlocks = 1,
        head = 1048576, tail = 1048576\<rparr>"
    and "classes (heaps s 2) 15 = \<lparr>sc_size = 32768, sc_usedBlocks = 0, sc_numOfBlocks = 0,
        head = 0, tail = 0\<rparr>"
    and "held s = {}"
    and "isInitialized s"
  shows "\<exists>s'. malloc lp64 2097152 0 32768 s = Some (2097256, s') \<and>
     sbs s' 1048576 = Some \<lparr>sb_usedBlocks = 1, sb_numOfBlocks = 1, freeList = 1081448,
        sb_next = 2097152, sb_prev = 0, parentHeap = Some 0\<rparr> \<and>
     sbs s' 2097152 = Some \<lparr>sb_usedBlocks = 1, sb_numOfBlocks = 1, freeList = 2130024,
        sb_next = 0, sb_prev = 1048576, parentHeap = Some 0\<rparr> \<and>
     blocks s' 1048656 = Some \<lparr>blockSize = 32768, inUse = 1, b_next = 1081448, parentSuperblock = 1048576\<rparr> \<and>
     blocks s' 2097232 = Some \<lparr>blockSize = 32768, inUse = 1, b_next = 2130024, parentSuperblock = 2097152\<rparr> \<and>
     classes (heaps s' 0) 15 = \<lparr>sc_size = 32768, sc_usedBlocks = 2, sc_numOfBlocks = 2,
        head = 1048576, tail = 2097152\<rparr> \<and>
     classes (heaps s' 2) 15 = \<lparr>sc_size = 32768, sc_usedBlocks = 0, sc_numOfBlocks = 0,
        head = 0, tail = 0\<rparr> \<and>
     held s' = {} \<and>
     isInitialized s'"
  using assms
  by (auto simp add: malloc_def malloc_grow_def lp64_step_defs)

lemma eviction_step3:
  assumes "sbs s 1048576 = Some \<lparr>sb_usedBlocks = 1, sb_numOfBlocks = 1, freeList = 1081448,
        sb_next = 2097152, sb_prev = 0, parentHeap = Some 0\<rparr>"
    and "sbs s 2097152 = Some \<lparr>sb_usedBlocks = 1, sb_numOfBlocks = 1, freeList = 2130024,
        sb_next = 0, sb_prev = 1048576, parentHeap = Some 0\<rparr>"
    and "blocks s 1048656 = Some \<lparr>blockSize = 32768, inUse = 1, b_next = 1081448, parentSuperblock = 1048576\<rparr>"
    and "blocks s 2097232 = Some \<lparr>blockSize = 32768, inUse = 1, b_next = 2130024, parentSuperblock = 2097152\<rparr>"
    and "classes (heaps s 0) 15 = \<lparr>sc_size = 32768, sc_usedBlocks = 2, sc_numOfBlocks = 2,
        head = 1048576, tail = 2097152\<rparr>"
    and "classes (heaps s 2) 15 = \<lparr>sc_size = 32768, sc_usedBlocks = 0, sc_numOfBlocks = 0,
        head = 0, tail = 0\<rparr>"
    and "held s = {}"
    and "isInitialized s"
  shows "\<exists>s'. malloc lp64 3145728 0 32768 s = Some (3145832, s') \<and>
     sbs s' 1048576 = Some \<lparr>sb_usedBlocks = 1, sb_numOfBlocks = 1, freeList = 1081448,
        sb_next = 2097152, sb_prev = 0, parentHeap = Some 0\<rparr> \<and>
     sbs s' 2097152 = Some \<lparr>sb_usedBlocks = 1, sb_numOfBlocks = 1, freeList = 2130024,
        sb_next = 3145728, sb_prev = 1048576, parentHeap = Some 0\<rparr> \<and>
     sbs s' 3145728 = Some \<lparr>sb_usedBlocks = 1, sb_numOfBlocks = 1, freeList = 3178600,
        sb_next = 0, sb_prev = 2097152, parentHeap = Some 0\<rparr> \<and>
     blocks s' 1048656 = Some \<lparr>blockSize = 32768, inUse = 1, b_next = 1081448, parentSuperblock = 1048576\<rparr> \<and>
     blocks s' 2097232 = Some \<lparr>blockSize = 32768, inUse = 1, b_next = 2130024, parentSuperblock = 2097152\<rparr> \<and>
     blocks s' 3145808 = Some \<lparr>blockSize = 32768, inUse = 1, b_next = 3178600, parentSuperblock = 3145728\<rparr> \<and>
     classes (heaps s' 0) 15 = \<lparr>sc_size = 32768, sc_usedBlocks = 3, sc_numOfBlocks = 3,
        head = 1048576, tail = 3145728\<rparr> \<and>
     classes (heaps s' 2) 15 = \<lparr>sc_size = 32768, sc_usedBlocks = 0, sc_numOfBlocks = 0,
        head = 0, tail = 0\<rparr> \<and>
     held s' = {} \<and>
     isInitialized s'"
  using assms
  by (auto simp add: malloc_def malloc_grow_def lp64_step_defs)

lemma eviction_step4:
  assumes "sbs s 1048576 = Some \<lparr>sb_usedBlocks = 1, sb_numOfBlocks = 1, freeList = 1081448,
        sb_next = 2097152, sb_prev = 0, parentHeap = Some 0\<rparr>"
    and "sbs s 2097152 = Some \<lparr>sb_usedBlocks = 1, sb_numOfBlocks = 1, freeList = 2130024,
        sb_next = 3145728, sb_prev = 1048576, parentHeap = Some 0\<rparr>"
    and "sbs s 3145728 = Some \<lparr>sb_usedBlocks = 1, sb_numOfBlocks = 1, freeList = 3178600,
        sb_next = 0, sb_prev = 2097152, parentHeap = Some 0\<rparr>"
    and "blocks s 1048656 = Some \<lparr>blockSize = 32768, inUse = 1, b_next = 1081448, parentSuperblock = 1048576\<rparr>"
    and "blocks s 2097232 = Some \<lparr>blockSize = 32768, inUse = 1, b_next = 2130024, parentSuperblock = 2097152\<rparr>"
    and "blocks s 3145808 = Some \<lparr>blockSize = 32768, inUse = 1, b_next = 3178600, parentSuperblock = 3145728\<rparr>"
    and "classes (heaps s 0) 15 = \<lparr>sc_size = 32768, sc_usedBlocks = 3, sc_numOfBlocks = 3,
        head = 1048576, tail = 3145728\<rparr>"
    and "classes (heaps s 2) 15 = \<lparr>sc_size = 32768, sc_usedBlocks = 0, sc_numOfBlocks = 0,
        head = 0, tail = 0\<rparr>"
    and "held s = {}"
    and "isInitialized s"
  shows "\<exists>s'. free lp64 1048680 s = Some s' \<and>
     sbs s' 1048576 = Some \<lparr>sb_usedBlocks = 0, sb_numOfBlocks = 1, freeList = 1048656,
        sb_next = 0, sb_prev = 3145728, parentHeap = Some 0\<rparr> \<and>
     sbs s' 2097152 = Some \<lparr>sb_usedBlocks = 1, sb_numOfBlocks = 1, freeList = 2130024,
        sb_next = 3145728, sb_prev = 0, parentHeap = Some 0\<rparr> \<and>
     sbs s' 3145728 = Some \<lparr>sb_usedBlocks = 1, sb_numOfBlocks = 1, freeList = 3178600,
        sb_next = 1048576, sb_prev = 2097152, parentHeap = Some 0\<rparr> \<and>
     blocks s' 1048656 = Some \<lparr>blockSize = 32768, inUse = 0, b_next = 1081448, parentSuperblock = 1048576\<rparr> \<and>
     blocks s' 2097232 = Some \<lparr>blockSize = 32768, inUse = 1, b_next = 2130024, parentSuperblock = 2097152\<rparr> \<and>
     blocks s' 3145808 = Some \<lparr>blockSize = 32768, inUse = 1, b_next = 3178600, parentSuperblock = 3145728\<rparr> \<and>
     classes (heaps s' 0) 15 = \<lparr>sc_size = 32768, sc_usedBlocks = 2, sc_numOfBlocks = 3,
        head = 2097152, tail = 1048576\<rparr> \<and>
     classes (heaps s' 2) 15 = \<lparr>sc_size = 32768, sc_usedBlocks = 0, sc_numOfBlocks = 0,
        head = 0, tail = 0\<rparr> \<and>
     held s' = {} \<and>
     isInitialized s'"
  using assms
  by (auto simp add: free_def free_small_def lp64_step_defs)

lemma eviction_step5:
  assumes "sbs s 1048576 = Some \<lparr>sb_usedBlocks = 0, sb_numOfBlocks = 1, freeList = 1048656,
        sb_next = 0, sb_prev = 3145728, parentHeap = Some 0\<rparr>"
    and "sbs s 2097152 = Some \<lparr>sb_usedBlocks = 1, sb_numOfBlocks = 1, freeList = 2130024,
        sb_next = 3145728, sb_prev = 0, parentHeap = Some 0\<rparr>"
    and "sbs s 3145728 = Some \<lparr>sb_usedBlocks = 1, sb_numOfBlocks = 1, freeList = 3178600,
        sb_next = 1048576, sb_prev = 2097152, parentHeap = Some 0\<rparr>"
    and "blocks s 1048656 = Some \<lparr>blockSize = 32768, inUse = 0, b_next = 1081448, parentSuperblock = 1048576\<rparr>"
    and "blocks s 2097232 = Some \<lparr>blockSize = 32768, inUse = 1, b_next = 2130024, parentSuperblock = 2097152\<rparr>"
    and "blocks s 3145808 = Some \<lparr>blockSize = 32768, inUse = 1, b_next = 3178600, parentSuperblock = 3145728\<rparr>"
    and "classes (heaps s 0) 15 = \<lparr>sc_size = 32768, sc_usedBlocks = 2, sc_numOfBlocks = 3,
        head = 2097152, tail = 1048576\<rparr>"
    and "classes (heaps s 2) 15 = \<lparr>sc_size = 32768, sc_usedBlocks = 0, sc_numOfBlocks = 0,
        head = 0, tail = 0\<rparr>"
    and "held s = {}"
    and "isInitialized s"
  shows "\<exists>s'. free lp64 2097256 s = Some s' \<and>
     sbs s' 1048576 = Some \<lparr>sb_usedBlocks = 0, sb_numOfBlocks = 1, freeList = 1048656,
        sb_next = 0, sb_prev = 0, parentHeap = Some 2\<rparr> \<and>
     sbs s' 2097152 = Some \<lparr>sb_usedBlocks = 0, sb_numOfBlocks = 1, freeList = 2097232,
        sb_next = 0, sb_prev = 3145728, parentHeap = Some 0\<rparr> \<and>
     sbs s' 3145728 = Some \<lparr>sb_usedBlocks = 1, sb_numOfBlocks = 1, freeList = 3178600,
        sb_next = 2097152, sb_prev = 0, parentHeap = Some 0\<rparr> \<and>
     blocks s' 1048656 = Some \<lparr>blockSize = 32768, inUse = 0, b_next = 1081448, parentSuperblock = 1048576\<rparr> \<and>
     blocks s' 2097232 = Some \<lparr>blockSize = 32768, inUse = 0, b_next = 2130024, parentSuperblock = 2097152\<rparr> \<and>
     blocks s' 3145808 = Some \<lparr>blockSize = 32768, inUse = 1, b_next = 3178600, parentSuperblock = 3145728\<rparr> \<and>
     classes (heaps s' 0) 15 = \<lparr>sc_size = 32768, sc_usedBlocks = 1, sc_numOfBlocks = 2,
        head = 3145728, tail = 2097152\<rparr> \<and>
     classes (heaps s' 2) 15 = \<lparr>sc_size = 32768, sc_usedBlocks = 0, sc_numOfBlocks = 1,
        head = 1048576, tail = 1048576\<rparr> \<and>
     held s' = {} \<and>
     isInitialized s'"
  using assms
  by (auto simp add: free_def free_small_def lp64_step_defs)

section \<open>Lists\<close>


lemma hd0_simps [simp]: "hd0 [] = 0" "hd0 (x # xs) = x"
  by (simp_all add: hd0_def)

lemma last0_simps [simp]: "last0 [] = 0" "last0 (xs @ [x]) = x"
  by (simp_all add: last0_def)

lemma last0_Cons: "last0 (x # xs) = (if xs = [] then x else last0 xs)"
  by (simp add: last0_def)

lemma last0_append: "last0 (xs @ ys) = (if ys = [] then last0 xs else last0 ys)"
  by (simp add: last0_def)

lemma hd0_append: "hd0 (xs @ ys) = (if xs = [] then hd0 ys else hd0 xs)"
  by (cases xs) simp_all

lemma dropWhile_neq: "y \<notin> set u \<Longrightarrow> dropWhile (\<lambda>z. z \<noteq> y) (u @ y # v) = y # v"
  by (induction u) auto

lemma takeWhile_neq: "y \<notin> set u \<Longrightarrow> takeWhile (\<lambda>z. z \<noteq> y) (u @ y # v) = u"
  by (induction u) auto

lemma nxt_app: "y \<notin> set u \<Longrightarrow> nxt (u @ y # v) y = hd0 v"
  by (simp add: nxt_def dropWhile_neq)

lemma prv_app: "y \<notin> set u \<Longrightarrow> prv (u @ y # v) y = last0 u"
  by (simp add: prv_def takeWhile_neq)

lemma hd0_in: "xs \<noteq> [] \<Longrightarrow> hd0 xs \<in> set xs"
  by (cases xs) simp_all

lemma last0_in: "xs \<noteq> [] \<Longrightarrow> last0 xs \<in> set xs"
  by (simp add: last0_def)

text \<open>Swapping two neighbours: the links of the new list in terms of the old ones.\<close>

lemma nxt_swap:
  assumes "distinct (as @ a # b # cs)" and "y \<in> set (as @ a # b # cs)"
  shows "nxt (as @ b # a # cs) y =
     (if y = a then hd0 cs else if y = b then a
      else if as \<noteq> [] \<and> y = last0 as then b else nxt (as @ a # b # cs) y)"
proof -
  consider "y = a" | "y = b" | "y \<in> set as" | "y \<in> set cs"
    using assms(2) by auto
  then show ?thesis
  proof cases
    case 1
    then show ?thesis
      using assms(1) nxt_app [of a "as @ [b]" cs] by simp
  next
    case 2
    then show ?thesis
      using assms(1) nxt_app [of b as "a # cs"] by auto
  next
    case 3
    then obtain u v where uv: "as = u @ y # v" "y \<notin> set u"
      by (meson split_list_first)
    have ya: "y \<noteq> a" "y \<noteq> b"
      using 3 assms(1) by auto
    have "nxt (as @ b # a # cs) y = hd0 (v @ b # a # cs)"
      using nxt_app [OF uv(2), of "v @ b # a # cs"] uv(1) by simp
    moreover have "nxt (as @ a # b # cs) y = hd0 (v @ a # b # cs)"
      using nxt_app [OF uv(2), of "v @ a # b # cs"] uv(1) by simp
    moreover have "y = last0 as \<longleftrightarrow> v = []"
      using uv assms(1) by (auto simp: last0_append last0_Cons last0_def)
    ultimately show ?thesis
      using ya uv(1) by (auto simp: hd0_append)
  next
    case 4
    then obtain u v where uv: "cs = u @ y # v" "y \<notin> set u"
      by (meson split_list_first)
    have ya: "y \<noteq> a" "y \<noteq> b" "y \<notin> set as"
      using 4 assms(1) by auto
    have "nxt (as @ b # a # cs) y = hd0 v"
      using nxt_app [of y "as @ b # a # u" v] uv ya by simp
    moreover have "nxt (as @ a # b # cs) y = hd0 v"
      using nxt_app [of y "as @ a # b # u" v] uv ya by simp
    moreover have "\<not> (as \<noteq> [] \<and> y = last0 as)"
      using ya(3) last0_in by blast
    ultimately show ?thesis
      using ya by auto
  qed
qed

lemma prv_swap:
  assumes "distinct (as @ a # b # cs)" and "y \<in> set (as @ a # b # cs)"
  shows "prv (as @ b # a # cs) y =
     (if y = b then last0 as else if y = a then b
      else if cs \<noteq> [] \<and> y = hd0 cs then a else prv (as @ a # b # cs) y)"
proof -
  consider "y = a" | "y = b" | "y \<in> set as" | "y \<in> set cs"
    using assms(2) by auto
  then show ?thesis
  proof cases
    case 1
    then show ?thesis
      using assms(1) prv_app [of a "as @ [b]" cs] by auto
  next
    case 2
    then show ?thesis
      using assms(1) prv_app [of b as "a # cs"] by auto
  next
    case 3
    then obtain u v where uv: "as = u @ y # v" "y \<notin> set u"
      by (meson split_list_first)
    have ya: "y \<noteq> a" "y \<noteq> b" "y \<notin> set cs"
      using 3 assms(1) by auto
    have "prv (as @ b # a # cs) y = last0 u"
      using prv_app [OF uv(2), of "v @ b # a # cs"] uv(1) by simp
    moreover have "prv (as @ a # b # cs) y = last0 u"
      using prv_app [OF uv(2), of "v @ a # b # cs"] uv(1) by simp
    moreover have "\<not> (cs \<noteq> [] \<and> y = hd0 cs)"
      using ya(3) hd0_in by blast
    ultimately show ?thesis
      using ya by auto
  next
    case 4
    then obtain u v where uv: "cs = u @ y # v" "y \<notin> set u"
      by (meson split_list_first)
    have ya: "y \<noteq> a" "y \<noteq> b" "y \<notin> set as"
      using 4 assms(1) by auto
    have "prv (as @ b # a # cs) y = last0 (as @ b # a # u)"
      using prv_app [of y "as @ b # a # u" v] uv ya by simp
    moreover have "prv (as @ a # b # cs) y = last0 (as @ a # b # u)"
      using prv_app [of y "as @ a # b # u" v] uv ya by simp
    moreover have "y = hd0 cs \<longleftrightarrow> u = []"
      using uv by (cases u) auto
    ultimately show ?thesis
      using ya uv(1) by (auto simp: last0_append last0_Cons)
  qed
qed


section \<open>swap_superblocks on a well-formed list\<close>

lemma cls_of_wr:
  "in_range hc \<Longrightarrow> wr_class hc f s = Some (s\<lparr>heaps := (heaps s)
      (fst hc := (heaps s (fst hc))\<lparr>classes := (classes (heaps s (fst hc)))(snd hc := f (cls_of s hc))\<rparr>)\<rparr>)"
  by (cases hc) (simp add: wr_class_def rd_class_def in_range_def cls_of_def)

lemma rd_class_in_range: "in_range hc \<Longrightarrow> rd_class s hc = Some (cls_of s hc)"
  by (cases hc) (simp add: rd_class_def in_range_def cls_of_def)

lemma swap_exec:
  assumes a: "sbs s a = Some xa" "a \<noteq> 0" "sb_next xa = b" "sb_prev xa = p"
    and b: "sbs s b = Some xb" "b \<noteq> 0" "sb_next xb = n" "a \<noteq> b"
    and p: "p \<noteq> 0 \<longrightarrow> sbs s p = Some xp" "p \<noteq> a" "p \<noteq> b"
    and n: "n \<noteq> 0 \<longrightarrow> sbs s n = Some xn" "n \<noteq> a" "n \<noteq> b" "p = 0 \<or> p \<noteq> n"
    and r: "in_range hc"
  shows "\<exists>s'. swap_superblocks hc a s = Some s' \<and> rest s' = rest s \<and>
     (\<forall>y. sbs s' y =
        (if y = a then Some (xa\<lparr>sb_next := n, sb_prev := b\<rparr>)
         else if y = b then Some (xb\<lparr>sb_next := a, sb_prev := p\<rparr>)
         else if y = p \<and> p \<noteq> 0 then Some (xp\<lparr>sb_next := b\<rparr>)
         else if y = n \<and> n \<noteq> 0 then Some (xn\<lparr>sb_prev := a\<rparr>)
         else sbs s y)) \<and>
     cls_of s' hc = (cls_of s hc)\<lparr>head := (if head (cls_of s hc) = a then b else head (cls_of s hc)),
                                  tail := (if tail (cls_of s hc) = b then a else tail (cls_of s hc))\<rparr> \<and>
     (\<forall>k. k \<noteq> hc \<longrightarrow> cls_of s' k = cls_of s k) \<and>
     (\<forall>h. heap_id (heaps s' h) = heap_id (heaps s h))"
proof -
  obtain h c where hc: "hc = (h, c)"
    by (cases hc)
  have hr: "h < NUM_OF_HEAPS" "c < NUM_OF_CLASSES"
    using r hc by (simp_all add: in_range_def)
  show ?thesis
  proof (cases "p = 0")
    case p0: True
    show ?thesis
    proof (cases "n = 0")
      case True
      with p0 show ?thesis
        using a b hr unfolding hc
        by (auto simp add: swap_superblocks_def Let_def rd_sb_def wr_sb_def rd_class_def wr_class_def
            rest_def cls_of_def)
    next
      case False
      with p0 show ?thesis
        using a b n hr unfolding hc
        by (auto simp add: swap_superblocks_def Let_def rd_sb_def wr_sb_def rd_class_def wr_class_def
            rest_def cls_of_def)
    qed
  next
    case p1: False
    show ?thesis
    proof (cases "n = 0")
      case True
      with p1 show ?thesis
        using a b p hr unfolding hc
        by (auto simp add: swap_superblocks_def Let_def rd_sb_def wr_sb_def rd_class_def wr_class_def
            rest_def cls_of_def)
    next
      case False
      with p1 show ?thesis
        using a b p n hr unfolding hc
        by (auto simp add: swap_superblocks_def Let_def rd_sb_def wr_sb_def rd_class_def wr_class_def
            rest_def cls_of_def)
    qed
  qed
qed


lemma dll_member:
  "dll s hc xs \<Longrightarrow> y \<in> set xs \<Longrightarrow>
   \<exists>x. sbs s y = Some x \<and> sb_next x = nxt xs y \<and> sb_prev x = prv xs y \<and> y \<noteq> 0"
  by (cases "y = 0") (auto simp: dll_def links_def split: option.splits)

lemma swap_dll:
  assumes d: "dll s hc (as @ a # b # cs)" and r: "in_range hc"
  shows "\<exists>s'. swap_superblocks hc a s = Some s' \<and> dll s' hc (as @ b # a # cs) \<and>
           relink hc (set (as @ a # b # cs)) s s'"
proof -
  let ?xs = "as @ a # b # cs" and ?xs' = "as @ b # a # cs"
  let ?p = "last0 as" and ?n = "hd0 cs"
  have dist: "distinct ?xs" and nz: "0 \<notin> set ?xs"
    using d by (simp_all add: dll_def)
  have hd: "head (cls_of s hc) = hd0 ?xs" and tl: "tail (cls_of s hc) = last0 ?xs"
    using d by (simp_all add: dll_def)
  obtain xa where xa: "sbs s a = Some xa" "sb_next xa = nxt ?xs a" "sb_prev xa = prv ?xs a" "a \<noteq> 0"
    using dll_member [OF d, of a] by auto
  obtain xb where xb: "sbs s b = Some xb" "sb_next xb = nxt ?xs b" "sb_prev xb = prv ?xs b" "b \<noteq> 0"
    using dll_member [OF d, of b] by auto
  have na: "nxt ?xs a = b" "prv ?xs a = ?p"
    using dist nxt_app [of a as "b # cs"] prv_app [of a as "b # cs"] by auto
  have nb: "nxt ?xs b = ?n" "prv ?xs b = a"
    using dist nxt_app [of b "as @ [a]" cs] prv_app [of b "as @ [a]" cs] by auto
  have pz: "?p = 0 \<longleftrightarrow> as = []"
    using nz last0_in [of as] by (cases "as = []") (simp, metis Un_iff set_append)
  have nzz: "?n = 0 \<longleftrightarrow> cs = []"
    using nz hd0_in [of cs] by (cases "cs = []") (simp, metis Un_iff set_append list.set_intros(2))
  have pin: "as \<noteq> [] \<Longrightarrow> ?p \<in> set as" and nin: "cs \<noteq> [] \<Longrightarrow> ?n \<in> set cs"
    using last0_in hd0_in by auto
  have pne: "?p \<noteq> a" "?p \<noteq> b" "?n \<noteq> a" "?n \<noteq> b" "?p = 0 \<or> ?p \<noteq> ?n" "a \<noteq> b"
    using dist pin nin pz nzz xa(4) xb(4) by (cases "as = []"; cases "cs = []"; auto)+
  obtain xp where xp: "?p \<noteq> 0 \<longrightarrow> sbs s ?p = Some xp"
    using dll_member [OF d, of ?p] pin pz by (cases "as = []") auto
  obtain xn where xn: "?n \<noteq> 0 \<longrightarrow> sbs s ?n = Some xn"
    using dll_member [OF d, of ?n] nin nzz by (cases "cs = []") auto
  have xa2: "sb_next xa = b" "sb_prev xa = ?p" and xb2: "sb_next xb = ?n"
    using xa(2,3) xb(2) na nb by simp_all
  from swap_exec [OF xa(1,4) xa2 xb(1,4) xb2 pne(6) xp pne(1,2) xn pne(3,4,5) r]
  obtain s' where ex: "swap_superblocks hc a s = Some s'" and rs: "rest s' = rest s"
    and pw: "\<And>y. sbs s' y =
        (if y = a then Some (xa\<lparr>sb_next := ?n, sb_prev := b\<rparr>)
         else if y = b then Some (xb\<lparr>sb_next := a, sb_prev := ?p\<rparr>)
         else if y = ?p \<and> ?p \<noteq> 0 then Some (xp\<lparr>sb_next := b\<rparr>)
         else if y = ?n \<and> ?n \<noteq> 0 then Some (xn\<lparr>sb_prev := a\<rparr>)
         else sbs s y)"
    and cl: "cls_of s' hc = (cls_of s hc)\<lparr>head := (if head (cls_of s hc) = a then b else head (cls_of s hc)),
                                  tail := (if tail (cls_of s hc) = b then a else tail (cls_of s hc))\<rparr>"
    and ot: "\<And>k. k \<noteq> hc \<Longrightarrow> cls_of s' k = cls_of s k"
    and hi: "\<And>h. heap_id (heaps s' h) = heap_id (heaps s h)"
    by auto
  have "links (sbs s') ?xs'"
    unfolding links_def
  proof
    fix y assume y: "y \<in> set ?xs'"
    then have yin: "y \<in> set ?xs"
      by auto
    obtain x where x: "sbs s y = Some x" "sb_next x = nxt ?xs y" "sb_prev x = prv ?xs y"
      using dll_member [OF d yin] by auto
    note sw = nxt_swap [OF dist yin] prv_swap [OF dist yin]
    consider "y = a" | "y = b" | "y \<noteq> a" "y \<noteq> b" "as \<noteq> []" "y = ?p"
      | "y \<noteq> a" "y \<noteq> b" "\<not> (as \<noteq> [] \<and> y = ?p)" "cs \<noteq> []" "y = ?n"
      | "y \<noteq> a" "y \<noteq> b" "\<not> (as \<noteq> [] \<and> y = ?p)" "\<not> (cs \<noteq> [] \<and> y = ?n)"
      by blast
    then show "case sbs s' y of None \<Rightarrow> False
        | Some x \<Rightarrow> sb_next x = nxt ?xs' y \<and> sb_prev x = prv ?xs' y"
    proof cases
      case 1
      then show ?thesis using pw [of y] sw pne by simp
    next
      case 2
      then show ?thesis using pw [of y] sw pne by simp
    next
      case 3
      have "y \<notin> set cs"
        using 3 pin dist by auto
      then have "\<not> (cs \<noteq> [] \<and> y = ?n)"
        using nin by auto
      then show ?thesis
        using 3 pw [of y] sw pne pz xp x by auto
    next
      case 4
      then show ?thesis
        using pw [of y] sw pne nzz pz xn x by auto
    next
      case 5
      then show ?thesis
        using pw [of y] sw pne nzz pz x by auto
    qed
  qed
  moreover have "head (cls_of s' hc) = hd0 ?xs'" "tail (cls_of s' hc) = last0 ?xs'"
    using cl hd tl dist by (auto simp: hd0_append last0_append last0_Cons dest: hd0_in last0_in)
  moreover have "distinct ?xs'" "0 \<notin> set ?xs'"
    using dist nz by auto
  ultimately have d': "dll s' hc ?xs'"
    by (simp add: dll_def)
  have "relink hc (set ?xs) s s'"
    unfolding relink_def
  proof (intro conjI allI impI)
    show "rest s' = rest s" by (rule rs)
    show "\<And>y. map_option sb_core (sbs s' y) = map_option sb_core (sbs s y)"
      using pw xa(1) xb(1) xp xn by (auto simp: sb_core_def)
    show "\<And>y. y \<notin> set ?xs \<Longrightarrow> sbs s' y = sbs s y"
      using pw pin nin pz nzz by (auto simp del: last0_simps hd0_simps)
    show "\<And>k. k \<noteq> hc \<Longrightarrow> cls_of s' k = cls_of s k" by (rule ot)
    show "sc_core (cls_of s' hc) = sc_core (cls_of s hc)"
      using cl by (simp add: sc_core_def)
    show "\<And>h. heap_id (heaps s' h) = heap_id (heaps s h)" by (rule hi)
  qed
  with ex d' show ?thesis
    by blast
qed

section \<open>The two loops on a well-formed list\<close>

lemma relink_refl: "relink hc X s s"
  by (simp add: relink_def)

lemma relink_trans: "relink hc X s s1 \<Longrightarrow> relink hc X s1 s2 \<Longrightarrow> relink hc X s s2"
  by (auto simp: relink_def)

lemma relink_mono: "relink hc X s s' \<Longrightarrow> X \<subseteq> Y \<Longrightarrow> relink hc Y s s'"
  by (auto simp: relink_def)

lemma relink_used: "relink hc X s s' \<Longrightarrow> used s' y = used s y"
proof -
  assume "relink hc X s s'"
  then have "map_option sb_core (sbs s' y) = map_option sb_core (sbs s y)"
    by (simp add: relink_def)
  then show ?thesis
    by (cases "sbs s' y"; cases "sbs s y") (auto simp: used_def sb_core_def)
qed

lemma rd_sb_dll:
  "dll s hc xs \<Longrightarrow> y \<in> set xs \<Longrightarrow>
   \<exists>x. rd_sb s y = Some x \<and> sbs s y = Some x \<and> sb_next x = nxt xs y \<and> sb_prev x = prv xs y"
  using dll_member [of s hc xs y] by (auto simp: rd_sb_def)

lemma hd0_zero: "0 \<notin> set xs \<Longrightarrow> hd0 xs = 0 \<longleftrightarrow> xs = []"
  by (cases xs) auto

lemma last0_zero: "0 \<notin> set xs \<Longrightarrow> last0 xs = 0 \<longleftrightarrow> xs = []"
  using last0_in [of xs] by (cases "xs = []") (simp, metis)

lemma sink_dll:
  assumes "dll s hc (as @ a # bs)" and "in_range hc"
  shows "\<exists>s'. sink_loop hc a s = Some s' \<and>
     dll s' hc (as @ takeWhile (\<lambda>y. used s a < used s y) bs @ a #
                 dropWhile (\<lambda>y. used s a < used s y) bs) \<and>
     relink hc (set (as @ a # bs)) s s'"
  using assms
proof (induction bs arbitrary: as s)
  case Nil
  obtain x where x: "rd_sb s a = Some x" "sb_next x = nxt (as @ [a]) a"
    using rd_sb_dll [OF Nil(1), of a] by auto
  have "nxt (as @ [a]) a = 0"
    using Nil(1) nxt_app [of a as "[]"] by (simp add: dll_def)
  then have "sink_loop hc a s = Some s"
    using x by (subst sink_loop.simps) simp
  then show ?case
    using Nil(1) relink_refl by simp
next
  case (Cons b bs)
  let ?xs = "as @ a # b # bs"
  have dist: "distinct ?xs" and nz: "0 \<notin> set ?xs"
    using Cons.prems(1) by (simp_all add: dll_def)
  obtain x where x: "rd_sb s a = Some x" "sbs s a = Some x" "sb_next x = nxt ?xs a"
    using rd_sb_dll [OF Cons.prems(1), of a] by auto
  obtain xb where xb: "rd_sb s b = Some xb" "sbs s b = Some xb"
    using rd_sb_dll [OF Cons.prems(1), of b] by auto
  have nx: "nxt ?xs a = b" "b \<noteq> 0"
    using dist nz nxt_app [of a as "b # bs"] by auto
  have u: "used s a = sb_usedBlocks x" "used s b = sb_usedBlocks xb"
    using x xb by (simp_all add: used_def)
  show ?case
  proof (cases "used s a < used s b")
    case False
    then have "sink_loop hc a s = Some s"
      using x xb nx u by (subst sink_loop.simps) simp
    then show ?thesis
      using False Cons.prems(1) relink_refl by simp
  next
    case True
    from swap_dll [OF Cons.prems(1,2)]
    obtain s1 where s1: "swap_superblocks hc a s = Some s1" "dll s1 hc (as @ b # a # bs)"
      "relink hc (set ?xs) s s1"
      by blast
    from Cons.IH [of s1 "as @ [b]"] s1(2) Cons.prems(2)
    obtain s' where s': "sink_loop hc a s1 = Some s'"
      "dll s' hc ((as @ [b]) @ takeWhile (\<lambda>y. used s1 a < used s1 y) bs @ a #
                 dropWhile (\<lambda>y. used s1 a < used s1 y) bs)"
      "relink hc (set ((as @ [b]) @ a # bs)) s1 s'"
      by auto
    have un: "\<And>y. used s1 y = used s y"
      using relink_used [OF s1(3)] by simp
    have "sink_loop hc a s = Some s'"
      using x xb nx u True s1(1) s'(1) by (subst sink_loop.simps) simp
    moreover have "relink hc (set ?xs) s1 s'"
      by (rule relink_mono [OF s'(3)]) auto
    then have "relink hc (set ?xs) s s'"
      by (rule relink_trans [OF s1(3)])
    ultimately show ?thesis
      using s'(2) True by (simp add: un)
  qed
qed

lemma rise_dll:
  assumes "dll s hc (as @ a # bs)" and "in_range hc"
  shows "\<exists>s'. rise_loop hc a s = Some s' \<and>
     dll s' hc (rev (dropWhile (\<lambda>y. used s y < used s a) (rev as)) @ a #
                 rev (takeWhile (\<lambda>y. used s y < used s a) (rev as)) @ bs) \<and>
     relink hc (set (as @ a # bs)) s s'"
  using assms
proof (induction as arbitrary: bs s rule: rev_induct)
  case Nil
  obtain x where x: "rd_sb s a = Some x" "sb_prev x = prv (a # bs) a"
    using rd_sb_dll [OF Nil(1), of a] by auto
  have "prv (a # bs) a = 0"
    using prv_app [of a "[]" bs] by simp
  then have "rise_loop hc a s = Some s"
    using x by (subst rise_loop.simps) simp
  then show ?case
    using Nil(1) relink_refl by simp
next
  case (snoc p as)
  let ?xs = "as @ p # a # bs"
  have d: "dll s hc ?xs"
    using snoc.prems(1) by simp
  have dist: "distinct ?xs" and nz: "0 \<notin> set ?xs"
    using d by (simp_all add: dll_def)
  obtain x where x: "rd_sb s a = Some x" "sbs s a = Some x" "sb_prev x = prv ?xs a"
    using rd_sb_dll [OF d, of a] by auto
  obtain xp where xp: "rd_sb s p = Some xp" "sbs s p = Some xp"
    using rd_sb_dll [OF d, of p] by auto
  have px: "prv ?xs a = p" "p \<noteq> 0"
    using dist nz prv_app [of a "as @ [p]" bs] by auto
  have u: "used s a = sb_usedBlocks x" "used s p = sb_usedBlocks xp"
    using x xp by (simp_all add: used_def)
  show ?case
  proof (cases "used s p < used s a")
    case False
    then have "rise_loop hc a s = Some s"
      using x xp px u by (subst rise_loop.simps) simp
    then show ?thesis
      using False snoc.prems(1) relink_refl by simp
  next
    case True
    from swap_dll [OF d snoc.prems(2)]
    obtain s1 where s1: "swap_superblocks hc p s = Some s1" "dll s1 hc (as @ a # p # bs)"
      "relink hc (set ?xs) s s1"
      by blast
    from snoc.IH [of s1 "p # bs"] s1(2) snoc.prems(2)
    obtain s' where s': "rise_loop hc a s1 = Some s'"
      "dll s' hc (rev (dropWhile (\<lambda>y. used s1 y < used s1 a) (rev as)) @ a #
                 rev (takeWhile (\<lambda>y. used s1 y < used s1 a) (rev as)) @ p # bs)"
      "relink hc (set (as @ a # p # bs)) s1 s'"
      by auto
    have un: "\<And>y. used s1 y = used s y"
      using relink_used [OF s1(3)] by simp
    have "rise_loop hc a s = Some s'"
      using x xp px u True s1(1) s'(1) by (subst rise_loop.simps) simp
    moreover have "relink hc (set ?xs) s1 s'"
      by (rule relink_mono [OF s'(3)]) auto
    then have "relink hc (set ?xs) s s'"
      by (rule relink_trans [OF s1(3)])
    ultimately show ?thesis
      using s'(2) True by (simp add: un)
  qed
qed

section \<open>Order of a list after one of the loops\<close>

lemma sink_sorted_aux:
  "sorted_wrt (\<lambda>x y. k y \<le> k x) bs \<Longrightarrow>
   sorted_wrt (\<lambda>x y. (k :: addr \<Rightarrow> nat) y \<le> k x)
     (takeWhile (\<lambda>y. k a < k y) bs @ a # dropWhile (\<lambda>y. k a < k y) bs)"
proof (induction bs)
  case Nil
  then show ?case by simp
next
  case (Cons b bs)
  show ?case
  proof (cases "k a < k b")
    case True
    have "set (takeWhile (\<lambda>y. k a < k y) bs @ a # dropWhile (\<lambda>y. k a < k y) bs) = insert a (set bs)"
      by (metis (no_types) Un_insert_right list.simps(15) set_append takeWhile_dropWhile_id)
    then show ?thesis
      using True Cons by auto
  next
    case False
    then show ?thesis
      using Cons.prems by auto
  qed
qed

lemma set_take_drop:
  "set (takeWhile P bs @ a # dropWhile P bs) = insert a (set bs)"
  by (metis (no_types) Un_insert_right list.simps(15) set_append takeWhile_dropWhile_id)

lemma sink_sorted:
  assumes "sorted_wrt (\<lambda>x y. k y \<le> k x) (as @ bs)" and "\<forall>y\<in>set as. (k :: addr \<Rightarrow> nat) a \<le> k y"
  shows "sorted_wrt (\<lambda>x y. k y \<le> k x)
     (as @ takeWhile (\<lambda>y. k a < k y) bs @ a # dropWhile (\<lambda>y. k a < k y) bs)"
proof -
  have "sorted_wrt (\<lambda>x y. k y \<le> k x) (takeWhile (\<lambda>y. k a < k y) bs @ a # dropWhile (\<lambda>y. k a < k y) bs)"
    using assms(1) by (intro sink_sorted_aux) (simp add: sorted_wrt_append)
  then show ?thesis
    using assms by (simp only: sorted_wrt_append [of _ as] set_take_drop) (auto simp: sorted_wrt_append)
qed

lemma rise_sorted:
  assumes "sorted_wrt (\<lambda>x y. k y \<le> k x) (as @ bs)" and "\<forall>y\<in>set bs. (k :: addr \<Rightarrow> nat) y \<le> k a"
  shows "sorted_wrt (\<lambda>x y. k y \<le> k x)
     (rev (dropWhile (\<lambda>y. k y < k a) (rev as)) @ a # rev (takeWhile (\<lambda>y. k y < k a) (rev as)) @ bs)"
  using assms
proof (induction as arbitrary: bs rule: rev_induct)
  case Nil
  then show ?case by simp
next
  case (snoc p as)
  show ?case
  proof (cases "k p < k a")
    case True
    have "sorted_wrt (\<lambda>x y. k y \<le> k x) (as @ p # bs)" "\<forall>y\<in>set (p # bs). k y \<le> k a"
      using snoc.prems True by auto
    from snoc.IH [OF this] show ?thesis
      using True by simp
  next
    case False
    then show ?thesis
      using snoc.prems by (auto simp: sorted_wrt_append)
  qed
qed

section \<open>Links after removing, prepending and appending\<close>

lemma nxt_Cons: "nxt (a # ys) y = (if y = a then hd0 ys else nxt ys y)"
  by (simp add: nxt_def)

lemma prv_Cons:
  "a \<notin> set ys \<Longrightarrow> y \<in> set (a # ys) \<Longrightarrow>
   prv (a # ys) y = (if y = a then 0 else if y = hd0 ys then a else prv ys y)"
  by (cases ys) (auto simp: prv_def last0_Cons)

lemma nxt_snoc:
  "distinct (xs @ [a]) \<Longrightarrow> y \<in> set (xs @ [a]) \<Longrightarrow>
   nxt (xs @ [a]) y = (if y = a then 0 else if y = last0 xs then a else nxt xs y)"
proof -
  assume d: "distinct (xs @ [a])" and y: "y \<in> set (xs @ [a])"
  show ?thesis
  proof (cases "y = a")
    case True
    then show ?thesis using d nxt_app [of a xs "[]"] by simp
  next
    case False
    then obtain u v where uv: "xs = u @ y # v" "y \<notin> set u"
      using y by (metis Un_iff empty_iff empty_set set_ConsD set_append split_list_first)
    have "nxt (xs @ [a]) y = hd0 (v @ [a])" "nxt xs y = hd0 v"
      using nxt_app [OF uv(2), of "v @ [a]"] nxt_app [OF uv(2), of v] uv(1) by simp_all
    moreover have "y = last0 xs \<longleftrightarrow> v = []"
      using uv d by (auto simp: last0_append last0_Cons last0_def)
    ultimately show ?thesis
      using False by (auto simp: hd0_append)
  qed
qed

lemma prv_snoc:
  "distinct (xs @ [a]) \<Longrightarrow> y \<in> set (xs @ [a]) \<Longrightarrow>
   prv (xs @ [a]) y = (if y = a then last0 xs else prv xs y)"
proof -
  assume d: "distinct (xs @ [a])" and y: "y \<in> set (xs @ [a])"
  show ?thesis
  proof (cases "y = a")
    case True
    then show ?thesis using d prv_app [of a xs "[]"] by simp
  next
    case False
    then obtain u v where uv: "xs = u @ y # v" "y \<notin> set u"
      using y by (metis Un_iff empty_iff empty_set set_ConsD set_append split_list_first)
    show ?thesis
      using prv_app [OF uv(2), of "v @ [a]"] prv_app [OF uv(2), of v] uv(1) False by simp
  qed
qed

lemma nxt_remove:
  assumes "distinct (as @ a # bs)" and "y \<in> set (as @ bs)"
  shows "nxt (as @ bs) y = (if as \<noteq> [] \<and> y = last0 as then hd0 bs else nxt (as @ a # bs) y)"
proof -
  consider "y \<in> set as" | "y \<in> set bs"
    using assms(2) by auto
  then show ?thesis
  proof cases
    case 1
    then obtain u v where uv: "as = u @ y # v" "y \<notin> set u"
      by (meson split_list_first)
    have "nxt (as @ bs) y = hd0 (v @ bs)" "nxt (as @ a # bs) y = hd0 (v @ a # bs)"
      using nxt_app [OF uv(2), of "v @ bs"] nxt_app [OF uv(2), of "v @ a # bs"] uv(1) by simp_all
    moreover have "y = last0 as \<longleftrightarrow> v = []"
      using uv assms(1) by (auto simp: last0_append last0_Cons last0_def)
    ultimately show ?thesis
      using uv(1) by (auto simp: hd0_append)
  next
    case 2
    then obtain u v where uv: "bs = u @ y # v" "y \<notin> set u"
      by (meson split_list_first)
    have ya: "y \<noteq> a" "y \<notin> set as"
      using 2 assms(1) by auto
    have "nxt (as @ bs) y = hd0 v" "nxt (as @ a # bs) y = hd0 v"
      using nxt_app [of y "as @ u" v] nxt_app [of y "as @ a # u" v] uv ya by simp_all
    moreover have "\<not> (as \<noteq> [] \<and> y = last0 as)"
      using ya(2) last0_in by blast
    ultimately show ?thesis
      by auto
  qed
qed

lemma prv_remove:
  assumes "distinct (as @ a # bs)" and "y \<in> set (as @ bs)"
  shows "prv (as @ bs) y = (if bs \<noteq> [] \<and> y = hd0 bs then last0 as else prv (as @ a # bs) y)"
proof -
  consider "y \<in> set as" | "y \<in> set bs"
    using assms(2) by auto
  then show ?thesis
  proof cases
    case 1
    then obtain u v where uv: "as = u @ y # v" "y \<notin> set u"
      by (meson split_list_first)
    have ya: "y \<notin> set bs"
      using 1 assms(1) by auto
    have "prv (as @ bs) y = last0 u" "prv (as @ a # bs) y = last0 u"
      using prv_app [OF uv(2), of "v @ bs"] prv_app [OF uv(2), of "v @ a # bs"] uv(1) by simp_all
    moreover have "\<not> (bs \<noteq> [] \<and> y = hd0 bs)"
      using ya hd0_in by blast
    ultimately show ?thesis
      by auto
  next
    case 2
    then obtain u v where uv: "bs = u @ y # v" "y \<notin> set u"
      by (meson split_list_first)
    have ya: "y \<noteq> a" "y \<notin> set as"
      using 2 assms(1) by auto
    have "prv (as @ bs) y = last0 (as @ u)" "prv (as @ a # bs) y = last0 (as @ a # u)"
      using prv_app [of y "as @ u" v] prv_app [of y "as @ a # u" v] uv ya by simp_all
    moreover have "y = hd0 bs \<longleftrightarrow> u = []"
      using uv by (cases u) auto
    ultimately show ?thesis
      using uv(1) by (auto simp: last0_append last0_Cons)
  qed
qed

subsection \<open>What a free of a small block leaves alone\<close>

lemma wr_sb_keep:
  "wr_sb a f s = Some s' \<Longrightarrow> (\<forall>x. sb_core (f x) = sb_core x) \<longrightarrow> keep C s' = keep C s"
  by (auto simp: wr_sb_def keep_def cls_of_def rd_sb_def split: option.splits if_splits intro!: ext)

lemma wr_class_keep:
  "wr_class l f s = Some s' \<Longrightarrow> (\<forall>x. sc_core (f x) = sc_core x) \<and> l \<in> C \<longrightarrow> keep C s' = keep C s"
  by (auto simp: wr_class_def keep_def cls_of_def rd_class_def
      split: option.splits if_splits prod.splits intro!: ext)

lemma if_wr_sb_keep:
  "(if c then wr_sb a f s else Some s) = Some s' \<Longrightarrow>
   (\<forall>x. sb_core (f x) = sb_core x) \<longrightarrow> keep C s' = keep C s"
  by (auto split: if_splits dest: wr_sb_keep)

lemma if_wr_class_keep:
  "(if c then wr_class l f s else Some s) = Some s' \<Longrightarrow>
   (\<forall>x. sc_core (f x) = sc_core x) \<and> l \<in> C \<longrightarrow> keep C s' = keep C s"
  by (auto split: if_splits dest: wr_class_keep)

lemma if_wr_sb_class_keep:
  "(if c then wr_sb a f s else wr_class l g s) = Some s' \<Longrightarrow>
   (\<forall>x. sb_core (f x) = sb_core x) \<and> (\<forall>x. sc_core (g x) = sc_core x) \<and> l \<in> C
   \<longrightarrow> keep C s' = keep C s"
  by (auto split: if_splits dest: wr_sb_keep wr_class_keep)

lemma if_rd_wr_class_keep:
  "(if c then Option.bind (rd_sb s a) (\<lambda>x. wr_class l (f x) s) else Some s) = Some s'
   \<Longrightarrow> (\<forall>x y. sc_core (f x y) = sc_core y) \<and> l \<in> C \<longrightarrow> keep C s' = keep C s"
  by (auto split: if_splits dest: wr_class_keep elim!: bindE)

lemmas keep_steps = wr_sb_keep wr_class_keep if_wr_sb_keep if_wr_class_keep
  if_wr_sb_class_keep if_rd_wr_class_keep

lemma swap_superblocks_keep:
  "swap_superblocks l sb s = Some s' \<Longrightarrow> l \<in> C \<Longrightarrow> keep C s' = keep C s"
  unfolding swap_superblocks_def Let_def
  apply (erule bindE)
  subgoal for x
    apply (cases "sb_next x = 0")
     apply simp
    apply (simp only: if_True if_False simp_thms)
    apply (erule bindE)+
    apply (drule keep_steps [where C = C])+
    apply (simp add: sb_core_def sc_core_def)
    done
  done

lemma sink_loop_keep: "sink_loop l sb s = Some s' \<Longrightarrow> l \<in> C \<Longrightarrow> keep C s' = keep C s"
proof (induction rule: sink_loop.raw_induct[rotated 1, consumes 1])
  case (1 f l sb s s')
  then show ?case
    by (cases l) (auto simp: bind_eq_Some_conv split: if_splits dest!: swap_superblocks_keep [where C = C])
qed

lemma list_remove_keep: "list_remove l sb s = Some s' \<Longrightarrow> l \<in> C \<Longrightarrow> keep C s' = keep C s"
  unfolding list_remove_def
  apply (erule bindE)+
  apply (drule keep_steps [where C = C])+
  apply (simp add: sb_core_def sc_core_def)
  done

lemma list_push_head_keep: "list_push_head l sb s = Some s' \<Longrightarrow> l \<in> C \<Longrightarrow> keep C s' = keep C s"
  unfolding list_push_head_def
  apply (erule bindE)+
  apply (drule keep_steps [where C = C])+
  apply (simp add: sb_core_def sc_core_def)
  done

lemma mutex_lock_keep: "mutex_lock l s = Some s' \<Longrightarrow> keep C s' = keep C s"
  by (auto simp: mutex_lock_def keep_def cls_of_def split: if_splits)

lemma mutex_unlock_keep: "mutex_unlock l s = Some s' \<Longrightarrow> keep C s' = keep C s"
  by (auto simp: mutex_unlock_def keep_def cls_of_def split: if_splits)


lemma keepD:
  assumes "keep C s' = keep C s"
  shows "map_option sb_core (sbs s' a) = map_option sb_core (sbs s a)"
    and "sc_core (cls_of s' k) = sc_core (cls_of s k)"
    and "k \<notin> C \<Longrightarrow> cls_of s' k = cls_of s k"
    and "heap_id (heaps s' h) = heap_id (heaps s h)"
proof -
  from assms have 1: "(\<lambda>a. map_option sb_core (sbs s' a)) = (\<lambda>a. map_option sb_core (sbs s a))"
    and 2: "(\<lambda>k. sc_core (cls_of s' k)) = (\<lambda>k. sc_core (cls_of s k))"
    and 3: "(\<lambda>k. if k \<in> C then None else Some (cls_of s' k)) = (\<lambda>k. if k \<in> C then None else Some (cls_of s k))"
    and 4: "(\<lambda>h. heap_id (heaps s' h)) = (\<lambda>h. heap_id (heaps s h))"
    by (simp_all add: keep_def)
  from fun_cong [OF 1, of a] show "map_option sb_core (sbs s' a) = map_option sb_core (sbs s a)" .
  from fun_cong [OF 2, of k] show "sc_core (cls_of s' k) = sc_core (cls_of s k)" .
  from fun_cong [OF 3, of k] show "k \<notin> C \<Longrightarrow> cls_of s' k = cls_of s k" by simp
  from fun_cong [OF 4, of h] show "heap_id (heaps s' h) = heap_id (heaps s h)" .
qed

lemma wr_sb_eq:
  "wr_sb a f s = Some s' \<Longrightarrow> \<exists>x. rd_sb s a = Some x \<and> s' = s\<lparr>sbs := (sbs s)(a \<mapsto> f x)\<rparr>"
  by (auto simp: wr_sb_def split: option.splits)

lemma wr_class_eq:
  "wr_class (h, c) f s = Some s' \<Longrightarrow>
   s' = s\<lparr>heaps := (heaps s)(h := (heaps s h)\<lparr>classes := (classes (heaps s h))(c := f (classes (heaps s h) c))\<rparr>)\<rparr>"
  by (auto simp: wr_class_def rd_class_def split: option.splits if_splits)

lemma move_statistics_eq:
  assumes "move_statistics sb (src, c) (dst, c) s = Some s'" and "src \<noteq> dst"
  shows "\<exists>x. rd_sb s sb = Some x \<and> sbs s' = sbs s \<and>
     (\<forall>h. heap_id (heaps s' h) = heap_id (heaps s h)) \<and>
     (\<forall>k. k \<noteq> (src, c) \<longrightarrow> k \<noteq> (dst, c) \<longrightarrow> cls_of s' k = cls_of s k) \<and>
     cls_of s' (src, c) = (cls_of s (src, c))
       \<lparr>sc_usedBlocks := u32_sub (sc_usedBlocks (cls_of s (src, c))) (sb_usedBlocks x),
        sc_numOfBlocks := u32_sub (sc_numOfBlocks (cls_of s (src, c))) (sb_numOfBlocks x)\<rparr> \<and>
     cls_of s' (dst, c) = (cls_of s (dst, c))
       \<lparr>sc_usedBlocks := u32 (sc_usedBlocks (cls_of s (dst, c)) + sb_usedBlocks x),
        sc_numOfBlocks := u32 (sc_numOfBlocks (cls_of s (dst, c)) + sb_numOfBlocks x)\<rparr>"
  using assms unfolding move_statistics_def
  apply (elim bindE)
  apply (drule wr_class_eq)+
  apply (auto simp: cls_of_def)
  done


lemma sb_core_data: "map_option sb_core u = map_option sb_core v \<Longrightarrow>
    map_option sb_data u = map_option sb_data v \<and> map_option parentHeap u = map_option parentHeap v"
  by (cases u; cases v) (auto simp: sb_core_def sb_data_def)

lemma move_superblock_frame:
  assumes "move_superblock sb src dst c s = Some s'" and "src \<noteq> dst"
  shows "\<exists>y. sbs s' sb = Some y \<and> parentHeap y = Some dst \<and> held s' = held s \<and>
     (\<forall>a. map_option sb_data (sbs s' a) = map_option sb_data (sbs s a)) \<and>
     (\<forall>a. a \<noteq> sb \<longrightarrow> map_option parentHeap (sbs s' a) = map_option parentHeap (sbs s a)) \<and>
     (\<forall>h. heap_id (heaps s' h) = heap_id (heaps s h)) \<and>
     (\<forall>k. k \<noteq> (src, c) \<longrightarrow> k \<noteq> (dst, c) \<longrightarrow> cls_of s' k = cls_of s k) \<and>
     sc_core (cls_of s' (src, c)) = (sc_size (cls_of s (src, c)),
        u32_sub (sc_usedBlocks (cls_of s (src, c))) (sb_usedBlocks y),
        u32_sub (sc_numOfBlocks (cls_of s (src, c))) (sb_numOfBlocks y)) \<and>
     sc_core (cls_of s' (dst, c)) = (sc_size (cls_of s (dst, c)),
        u32 (sc_usedBlocks (cls_of s (dst, c)) + sb_usedBlocks y),
        u32 (sc_numOfBlocks (cls_of s (dst, c)) + sb_numOfBlocks y))"
proof -
  let ?C = "{(src, c), (dst, c)}"
  from assms(1) obtain s4 s8 s9 s10 where
    a: "list_remove (src, c) sb s = Some s4" and b: "list_push_head (dst, c) sb s4 = Some s8"
    and c: "sink_loop (dst, c) sb s8 = Some s9"
    and d: "wr_sb sb (\<lambda>y. y\<lparr>parentHeap := Some dst\<rparr>) s9 = Some s10"
    and e: "move_statistics sb (src, c) (dst, c) s10 = Some s'"
    unfolding move_superblock_def bind_eq_Some_conv by blast
  have k: "keep ?C s9 = keep ?C s"
    using list_remove_keep [OF a, of ?C] list_push_head_keep [OF b, of ?C] sink_loop_keep [OF c, of ?C]
    by simp
  from wr_sb_eq [OF d] obtain z where z: "rd_sb s9 sb = Some z"
    and s10: "s10 = s9\<lparr>sbs := (sbs s9)(sb \<mapsto> z\<lparr>parentHeap := Some dst\<rparr>)\<rparr>"
    by blast
  from z have z': "sbs s9 sb = Some z"
    by (simp add: rd_sb_def split: if_splits)
  from move_statistics_eq [OF e assms(2)] obtain x where x: "rd_sb s10 sb = Some x"
    and m: "sbs s' = sbs s10" "\<forall>h. heap_id (heaps s' h) = heap_id (heaps s10 h)"
      "\<forall>k. k \<noteq> (src, c) \<longrightarrow> k \<noteq> (dst, c) \<longrightarrow> cls_of s' k = cls_of s10 k"
      "cls_of s' (src, c) = (cls_of s10 (src, c))
       \<lparr>sc_usedBlocks := u32_sub (sc_usedBlocks (cls_of s10 (src, c))) (sb_usedBlocks x),
        sc_numOfBlocks := u32_sub (sc_numOfBlocks (cls_of s10 (src, c))) (sb_numOfBlocks x)\<rparr>"
      "cls_of s' (dst, c) = (cls_of s10 (dst, c))
       \<lparr>sc_usedBlocks := u32 (sc_usedBlocks (cls_of s10 (dst, c)) + sb_usedBlocks x),
        sc_numOfBlocks := u32 (sc_numOfBlocks (cls_of s10 (dst, c)) + sb_numOfBlocks x)\<rparr>"
    by blast
  have xz: "x = z\<lparr>parentHeap := Some dst\<rparr>"
    using x s10 by (simp add: rd_sb_def split: if_splits)
  have cl: "cls_of s10 k = cls_of s9 k" for k
    by (simp add: s10 cls_of_def)
  have hi: "heap_id (heaps s10 h) = heap_id (heaps s9 h)" for h
    by (simp add: s10)
  have h': "held s' = held s"
    using move_superblock_rest [OF assms(1)] by (simp add: rest_def)
  have 1: "sbs s' sb = Some x"
    using m(1) s10 xz by simp
  have 2: "parentHeap x = Some dst"
    by (simp add: xz)
  have 3: "map_option sb_data (sbs s' a) = map_option sb_data (sbs s a)" for a
  proof (cases "a = sb")
    case True
    have "map_option sb_data (sbs s9 sb) = map_option sb_data (sbs s sb)"
      using sb_core_data [OF keepD(1) [OF k, of sb]] by simp
    then show ?thesis
      using True 1 xz z' by (simp add: sb_data_def)
  next
    case False
    then show ?thesis
      using sb_core_data [OF keepD(1) [OF k, of a]] m(1) s10 by simp
  qed
  have 4: "map_option parentHeap (sbs s' a) = map_option parentHeap (sbs s a)" if "a \<noteq> sb" for a
    using that sb_core_data [OF keepD(1) [OF k, of a]] m(1) s10 by simp
  have 5: "heap_id (heaps s' h) = heap_id (heaps s h)" for h
    using m(2) hi keepD(4) [OF k, of h] by simp
  have 6: "cls_of s' q = cls_of s q" if "q \<noteq> (src, c)" "q \<noteq> (dst, c)" for q
    using that m(3) cl [of q] keepD(3) [OF k, of q] by (cases q) auto
  have 7: "sc_core (cls_of s' (src, c)) = (sc_size (cls_of s (src, c)),
        u32_sub (sc_usedBlocks (cls_of s (src, c))) (sb_usedBlocks x),
        u32_sub (sc_numOfBlocks (cls_of s (src, c))) (sb_numOfBlocks x))"
    using m(4) cl [of "(src, c)"] keepD(2) [OF k, of "(src, c)"] by (simp add: sc_core_def)
  have 8: "sc_core (cls_of s' (dst, c)) = (sc_size (cls_of s (dst, c)),
        u32 (sc_usedBlocks (cls_of s (dst, c)) + sb_usedBlocks x),
        u32 (sc_numOfBlocks (cls_of s (dst, c)) + sb_numOfBlocks x))"
    using m(5) cl [of "(dst, c)"] keepD(2) [OF k, of "(dst, c)"] by (simp add: sc_core_def)
  show ?thesis
    using 1 2 3 4 5 6 7 8 h' by blast
qed

lemma release_block_sbs:
  assumes "release_block sb block s = Some s'"
  shows "\<exists>x b. rd_sb s sb = Some x \<and> rd_blk s block = Some b \<and> heaps s' = heaps s \<and> held s' = held s \<and>
     sbs s' = (sbs s)(sb \<mapsto> x\<lparr>freeList := block, sb_usedBlocks := u32_sub (sb_usedBlocks x) 1\<rparr>) \<and>
     blocks s' = (blocks s)(block \<mapsto> b\<lparr>inUse := 0, b_next := freeList x\<rparr>)"
  using assms unfolding release_block_def
  apply (elim bindE)
  apply (drule wr_blk_eq wr_sb_eq)+
  apply (auto simp: rd_blk_def rd_sb_def split: if_splits)
  done


lemma invariant_broken_cong:
  "sc_core a = sc_core a' \<Longrightarrow> sb_numOfBlocks x = sb_numOfBlocks x' \<Longrightarrow>
   invariant_broken a x = invariant_broken a' x'"
  by (simp add: invariant_broken_def sc_core_def)

lemma free_small_effect:
  assumes fs: "free_small L block s = Some s'"
    and b: "rd_blk s block = Some b"
    and x: "rd_sb s (parentSuperblock b) = Some x"
    and h: "parentHeap x = Some h" and c: "int_log2 (blockSize b) = Some c"
  shows "blocks s' = (blocks s)(block \<mapsto> b\<lparr>inUse := 0, b_next := freeList x\<rparr>) \<and>
    (\<forall>a. map_option sb_data (sbs s' a) =
         (if a = parentSuperblock b
          then Some (u32_sub (sb_usedBlocks x) 1, sb_numOfBlocks x, block)
          else map_option sb_data (sbs s a))) \<and>
    (\<forall>k. heap_id (heaps s' k) = heap_id (heaps s k)) \<and>
    (\<forall>k. k \<noteq> (h, c) \<longrightarrow> k \<noteq> (NUM_OF_CPUS, c) \<longrightarrow> cls_of s' k = cls_of s k) \<and>
    (if h \<noteq> NUM_OF_CPUS \<and>
        invariant_broken ((cls_of s (h, c))\<lparr>sc_usedBlocks := u32_sub (sc_usedBlocks (cls_of s (h, c))) 1\<rparr>) x
     then \<exists>t y. sbs s' t = Some y \<and> parentHeap y = Some NUM_OF_CPUS \<and>
            (\<forall>a. a \<noteq> t \<longrightarrow> map_option parentHeap (sbs s' a) = map_option parentHeap (sbs s a)) \<and>
            sc_core (cls_of s' (h, c)) = (sc_size (cls_of s (h, c)),
               u32_sub (u32_sub (sc_usedBlocks (cls_of s (h, c))) 1) (sb_usedBlocks y),
               u32_sub (sc_numOfBlocks (cls_of s (h, c))) (sb_numOfBlocks y)) \<and>
            sc_core (cls_of s' (NUM_OF_CPUS, c)) = (sc_size (cls_of s (NUM_OF_CPUS, c)),
               u32 (sc_usedBlocks (cls_of s (NUM_OF_CPUS, c)) + sb_usedBlocks y),
               u32 (sc_numOfBlocks (cls_of s (NUM_OF_CPUS, c)) + sb_numOfBlocks y))
     else (\<forall>a. map_option parentHeap (sbs s' a) = map_option parentHeap (sbs s a)) \<and>
          sc_core (cls_of s' (h, c)) = (sc_size (cls_of s (h, c)),
             u32_sub (sc_usedBlocks (cls_of s (h, c))) 1, sc_numOfBlocks (cls_of s (h, c))) \<and>
          (h \<noteq> NUM_OF_CPUS \<longrightarrow> cls_of s' (NUM_OF_CPUS, c) = cls_of s (NUM_OF_CPUS, c)))"
proof -
  let ?sb = "parentSuperblock b"
  let ?cl = "cls_of s (h, c)"
  let ?E = "h \<noteq> NUM_OF_CPUS \<and> invariant_broken (?cl\<lparr>sc_usedBlocks := u32_sub (sc_usedBlocks ?cl) 1\<rparr>) x"
  from fs b x h c obtain s1 s2 s3 s7 s8 s9 sc x9 s10 where
    l1: "mutex_lock (SuperblockLock ?sb) s = Some s1"
    and l2: "mutex_lock (ClassLock h c) s1 = Some s2"
    and l3: "mutex_unlock (SuperblockLock ?sb) s2 = Some s3"
    and r: "release_block ?sb block s3 = Some s7"
    and w: "wr_class (h, c) (\<lambda>l. l\<lparr>sc_usedBlocks := u32_sub (sc_usedBlocks l) 1\<rparr>) s7 = Some s8"
    and k: "sink_loop (h, c) ?sb s8 = Some s9"
    and sc: "rd_class s9 (h, c) = Some sc" and x9: "rd_sb s9 ?sb = Some x9"
    and e: "(if h \<noteq> NUM_OF_CPUS \<and> invariant_broken sc x9 then do {
                t1 \<leftarrow> mutex_lock (ClassLock NUM_OF_CPUS c) s9;
                t2 \<leftarrow> move_superblock (tail sc) h NUM_OF_CPUS c t1;
                mutex_unlock (ClassLock NUM_OF_CPUS c) t2 }
              else Some s9) = Some s10"
    and u: "mutex_unlock (ClassLock h c) s10 = Some s'"
    unfolding free_small_def Let_def bind_eq_Some_conv by auto
  have s3: "sbs s3 = sbs s" "heaps s3 = heaps s" "blocks s3 = blocks s"
    using mutex_lock_eq [OF l1] mutex_lock_eq [OF l2] mutex_unlock_eq [OF l3] by simp_all
  have x3: "rd_sb s3 ?sb = Some x" and b3: "rd_blk s3 block = Some b"
    using x b s3 by (auto simp: rd_sb_def rd_blk_def split: if_splits)
  from release_block_sbs [OF r] x3 b3 have s7: "heaps s7 = heaps s"
    "sbs s7 = (sbs s)(?sb \<mapsto> x\<lparr>freeList := block, sb_usedBlocks := u32_sub (sb_usedBlocks x) 1\<rparr>)"
    "blocks s7 = (blocks s)(block \<mapsto> b\<lparr>inUse := 0, b_next := freeList x\<rparr>)"
    using s3 by auto
  note s8 = wr_class_eq [OF w]
  have cl8: "cls_of s8 (h, c) = ?cl\<lparr>sc_usedBlocks := u32_sub (sc_usedBlocks ?cl) 1\<rparr>"
    and o8: "\<And>q. q \<noteq> (h, c) \<Longrightarrow> cls_of s8 q = cls_of s q"
    and i8: "\<And>q. heap_id (heaps s8 q) = heap_id (heaps s q)"
    and sb8: "sbs s8 = sbs s7"
    using s7(1) by (auto simp: s8 cls_of_def)
  have k9: "keep {(h, c)} s9 = keep {(h, c)} s8"
    using sink_loop_keep [OF k] by simp
  have sc9: "sc = cls_of s9 (h, c)"
    using sc by (simp add: rd_class_def cls_of_def split: if_splits)
  have x9': "sbs s9 ?sb = Some x9"
    using x9 by (simp add: rd_sb_def split: if_splits)
  have core9: "map_option sb_core (sbs s9 a) = map_option sb_core (sbs s7 a)" for a
    using keepD(1) [OF k9, of a] sb8 by simp
  have n9: "sb_numOfBlocks x9 = sb_numOfBlocks x"
    using core9 [of ?sb] x9' s7(2) by (simp add: sb_core_def)
  have E: "(h \<noteq> NUM_OF_CPUS \<and> invariant_broken sc x9) = ?E"
    using invariant_broken_cong [OF _ n9, of sc "?cl\<lparr>sc_usedBlocks := u32_sub (sc_usedBlocks ?cl) 1\<rparr>"]
      keepD(2) [OF k9, of "(h, c)"] cl8 sc9 by simp
  have d9: "map_option sb_data (sbs s9 a) =
         (if a = ?sb then Some (u32_sub (sb_usedBlocks x) 1, sb_numOfBlocks x, block)
          else map_option sb_data (sbs s a))" for a
    using sb_core_data [OF core9 [of a]] s7(2) by (simp add: sb_data_def)
  have p9: "map_option parentHeap (sbs s9 a) = map_option parentHeap (sbs s a)" for a
    using sb_core_data [OF core9 [of a]] s7(2) x by (simp add: rd_sb_def split: if_splits)
  have c9: "sc_core (cls_of s9 (h, c)) = (sc_size ?cl, u32_sub (sc_usedBlocks ?cl) 1, sc_numOfBlocks ?cl)"
    using keepD(2) [OF k9, of "(h, c)"] cl8 by (simp add: sc_core_def)
  have o9: "cls_of s9 q = cls_of s q" if "q \<noteq> (h, c)" for q
    using keepD(3) [OF k9, of q] o8 [of q] that by simp
  have i9: "heap_id (heaps s9 q) = heap_id (heaps s q)" for q
    using keepD(4) [OF k9, of q] i8 by simp
  have bl: "blocks s' = blocks s7"
    using wr_class_rest [OF w] sink_loop_rest [OF k] evict_rest [OF e] mutex_unlock_eq [OF u]
    by (simp add: rest_def)
  have fin: "sbs s' = sbs s10" "heaps s' = heaps s10"
    using mutex_unlock_eq [OF u] by simp_all
  have A: "blocks s' = (blocks s)(block \<mapsto> b\<lparr>inUse := 0, b_next := freeList x\<rparr>)"
    using bl s7(3) by simp
  show ?thesis
  proof (cases ?E)
    case False
    with E have "\<not> (h \<noteq> NUM_OF_CPUS \<and> invariant_broken sc x9)"
      by blast
    from e [unfolded if_not_P [OF this]] have "s10 = s9"
      by simp
    then show ?thesis
      using False A d9 p9 c9 o9 i9 fin by (auto simp: cls_of_def)
  next
    case True
    then have hG: "h \<noteq> NUM_OF_CPUS"
      by simp
    from True E have "h \<noteq> NUM_OF_CPUS \<and> invariant_broken sc x9"
      by blast
    from e [unfolded if_P [OF this]]
    obtain t1 t2 where t1: "mutex_lock (ClassLock NUM_OF_CPUS c) s9 = Some t1"
      and t2: "move_superblock (tail sc) h NUM_OF_CPUS c t1 = Some t2"
      and t3: "mutex_unlock (ClassLock NUM_OF_CPUS c) t2 = Some s10"
      unfolding bind_eq_Some_conv by blast
    have e1: "sbs t1 = sbs s9" "heaps t1 = heaps s9"
      using mutex_lock_eq [OF t1] by simp_all
    have e3: "sbs s' = sbs t2" "heaps s' = heaps t2"
      using mutex_unlock_eq [OF t3] fin by simp_all
    have ct1: "cls_of t1 q = cls_of s9 q" for q
      by (simp add: cls_of_def e1)
    have ct2: "cls_of s' q = cls_of t2 q" for q
      by (simp add: cls_of_def e3)
    from move_superblock_frame [OF t2 hG] obtain y where y: "sbs t2 (tail sc) = Some y"
      "parentHeap y = Some NUM_OF_CPUS"
      "\<forall>a. map_option sb_data (sbs t2 a) = map_option sb_data (sbs t1 a)"
      "\<forall>a. a \<noteq> tail sc \<longrightarrow> map_option parentHeap (sbs t2 a) = map_option parentHeap (sbs t1 a)"
      "\<forall>q. heap_id (heaps t2 q) = heap_id (heaps t1 q)"
      "\<forall>k. k \<noteq> (h, c) \<longrightarrow> k \<noteq> (NUM_OF_CPUS, c) \<longrightarrow> cls_of t2 k = cls_of t1 k"
      "sc_core (cls_of t2 (h, c)) = (sc_size (cls_of t1 (h, c)),
        u32_sub (sc_usedBlocks (cls_of t1 (h, c))) (sb_usedBlocks y),
        u32_sub (sc_numOfBlocks (cls_of t1 (h, c))) (sb_numOfBlocks y))"
      "sc_core (cls_of t2 (NUM_OF_CPUS, c)) = (sc_size (cls_of t1 (NUM_OF_CPUS, c)),
        u32 (sc_usedBlocks (cls_of t1 (NUM_OF_CPUS, c)) + sb_usedBlocks y),
        u32 (sc_numOfBlocks (cls_of t1 (NUM_OF_CPUS, c)) + sb_numOfBlocks y))"
      by blast
    have B: "map_option sb_data (sbs s' a) =
         (if a = ?sb then Some (u32_sub (sb_usedBlocks x) 1, sb_numOfBlocks x, block)
          else map_option sb_data (sbs s a))" for a
      using y(3) d9 [of a] e1 e3 by simp
    have C: "heap_id (heaps s' q) = heap_id (heaps s q)" for q
      using y(5) i9 [of q] e1 e3 by simp
    have D: "cls_of s' q = cls_of s q" if "q \<noteq> (h, c)" "q \<noteq> (NUM_OF_CPUS, c)" for q
      using that y(6) o9 [of q] ct1 [of q] ct2 [of q] by (cases q) auto
    have F1: "sbs s' (tail sc) = Some y"
      using y(1) e3 by simp
    have F2: "map_option parentHeap (sbs s' a) = map_option parentHeap (sbs s a)" if "a \<noteq> tail sc" for a
      using that y(4) p9 [of a] e1 e3 by simp
    have F3: "sc_core (cls_of s' (h, c)) = (sc_size ?cl,
               u32_sub (u32_sub (sc_usedBlocks ?cl) 1) (sb_usedBlocks y),
               u32_sub (sc_numOfBlocks ?cl) (sb_numOfBlocks y))"
      using y(7) c9 ct1 [of "(h, c)"] ct2 [of "(h, c)"] by (simp add: sc_core_def)
    have F4: "sc_core (cls_of s' (NUM_OF_CPUS, c)) = (sc_size (cls_of s (NUM_OF_CPUS, c)),
               u32 (sc_usedBlocks (cls_of s (NUM_OF_CPUS, c)) + sb_usedBlocks y),
               u32 (sc_numOfBlocks (cls_of s (NUM_OF_CPUS, c)) + sb_numOfBlocks y))"
      using y(8) o9 [of "(NUM_OF_CPUS, c)"] hG ct1 [of "(NUM_OF_CPUS, c)"] ct2 [of "(NUM_OF_CPUS, c)"]
      by simp
    have F: "\<exists>t y. sbs s' t = Some y \<and> parentHeap y = Some NUM_OF_CPUS \<and>
            (\<forall>a. a \<noteq> t \<longrightarrow> map_option parentHeap (sbs s' a) = map_option parentHeap (sbs s a)) \<and>
            sc_core (cls_of s' (h, c)) = (sc_size (cls_of s (h, c)),
               u32_sub (u32_sub (sc_usedBlocks (cls_of s (h, c))) 1) (sb_usedBlocks y),
               u32_sub (sc_numOfBlocks (cls_of s (h, c))) (sb_numOfBlocks y)) \<and>
            sc_core (cls_of s' (NUM_OF_CPUS, c)) = (sc_size (cls_of s (NUM_OF_CPUS, c)),
               u32 (sc_usedBlocks (cls_of s (NUM_OF_CPUS, c)) + sb_usedBlocks y),
               u32 (sc_numOfBlocks (cls_of s (NUM_OF_CPUS, c)) + sb_numOfBlocks y))"
      using F1 F2 F3 F4 y(2) by blast
    show ?thesis
      using True A B C D F by (simp only: if_True simp_thms) blast
  qed
qed


lemma st_small_sb:
  "sbs st_small 1048576 = Some \<lparr>sb_usedBlocks = 1, sb_numOfBlocks = 1, freeList = 1081448,
     sb_next = 0, sb_prev = 0, parentHeap = Some 0\<rparr>"
  unfolding st_small_def
  by (simp add: exec_defs ilog2_32767)

lemma st_small_class:
  "cls_of st_small (0, 15) = \<lparr>sc_size = 32768, sc_usedBlocks = 1, sc_numOfBlocks = 1,
     head = 1048576, tail = 1048576\<rparr>"
  unfolding st_small_def cls_of_def
  by (simp add: exec_defs ilog2_32767)

section \<open>The claims\<close>

text \<open>
  C1. The claim: after every free of a small block of a CPU heap the emptiness invariant
  holds, one eviction being enough to restore it. After the five calls of
  \<open>eviction_calls\<close> the last free has evicted one superblock to the global heap, and
  the class is left with 1 used block out of 2: line 377 would still find the invariant
  broken, and the invariant of the specification is false.
\<close>

theorem one_eviction_not_enough:
  "\<exists>s. run lp64 eviction_calls (cold_start mem) = Some s \<and>
     sc_usedBlocks (classes (heaps s 0) 15) = 1 \<and> sc_numOfBlocks (classes (heaps s 0) 15) = 2 \<and>
     sc_numOfBlocks (classes (heaps s 2) 15) = 1 \<and>
     map_option parentHeap (sbs s 1048576) = Some (Some 2) \<and>
     map_option (invariant_broken (classes (heaps s 0) 15)) (sbs s 2097152) = Some True \<and>
     \<not> emptiness_invariant (sc_usedBlocks (classes (heaps s 0) 15))
         (sc_numOfBlocks (classes (heaps s 0) 15)) 1"
proof -
  from eviction_step1
  obtain s1 where c1: "malloc lp64 1048576 0 32768 (cold_start mem) = Some (1048680, s1)"
    and f1: "sbs s1 1048576 = Some \<lparr>sb_usedBlocks = 1, sb_numOfBlocks = 1, freeList = 1081448,
        sb_next = 0, sb_prev = 0, parentHeap = Some 0\<rparr>"
      "blocks s1 1048656 = Some \<lparr>blockSize = 32768, inUse = 1, b_next = 1081448, parentSuperblock = 1048576\<rparr>"
      "classes (heaps s1 0) 15 = \<lparr>sc_size = 32768, sc_usedBlocks = 1, sc_numOfBlocks = 1,
        head = 1048576, tail = 1048576\<rparr>"
      "classes (heaps s1 2) 15 = \<lparr>sc_size = 32768, sc_usedBlocks = 0, sc_numOfBlocks = 0,
        head = 0, tail = 0\<rparr>"
      "held s1 = {}"
      "isInitialized s1"
    by blast
  from eviction_step2 [OF f1]
  obtain s2 where c2: "malloc lp64 2097152 0 32768 s1 = Some (2097256, s2)"
    and f2: "sbs s2 1048576 = Some \<lparr>sb_usedBlocks = 1, sb_numOfBlocks = 1, freeList = 1081448,
        sb_next = 2097152, sb_prev = 0, parentHeap = Some 0\<rparr>"
      "sbs s2 2097152 = Some \<lparr>sb_usedBlocks = 1, sb_numOfBlocks = 1, freeList = 2130024,
        sb_next = 0, sb_prev = 1048576, parentHeap = Some 0\<rparr>"
      "blocks s2 1048656 = Some \<lparr>blockSize = 32768, inUse = 1, b_next = 1081448, parentSuperblock = 1048576\<rparr>"
      "blocks s2 2097232 = Some \<lparr>blockSize = 32768, inUse = 1, b_next = 2130024, parentSuperblock = 2097152\<rparr>"
      "classes (heaps s2 0) 15 = \<lparr>sc_size = 32768, sc_usedBlocks = 2, sc_numOfBlocks = 2,
        head = 1048576, tail = 2097152\<rparr>"
      "classes (heaps s2 2) 15 = \<lparr>sc_size = 32768, sc_usedBlocks = 0, sc_numOfBlocks = 0,
        head = 0, tail = 0\<rparr>"
      "held s2 = {}"
      "isInitialized s2"
    by blast
  from eviction_step3 [OF f2]
  obtain s3 where c3: "malloc lp64 3145728 0 32768 s2 = Some (3145832, s3)"
    and f3: "sbs s3 1048576 = Some \<lparr>sb_usedBlocks = 1, sb_numOfBlocks = 1, freeList = 1081448,
        sb_next = 2097152, sb_prev = 0, parentHeap = Some 0\<rparr>"
      "sbs s3 2097152 = Some \<lparr>sb_usedBlocks = 1, sb_numOfBlocks = 1, freeList = 2130024,
        sb_next = 3145728, sb_prev = 1048576, parentHeap = Some 0\<rparr>"
      "sbs s3 3145728 = Some \<lparr>sb_usedBlocks = 1, sb_numOfBlocks = 1, freeList = 3178600,
        sb_next = 0, sb_prev = 2097152, parentHeap = Some 0\<rparr>"
      "blocks s3 1048656 = Some \<lparr>blockSize = 32768, inUse = 1, b_next = 1081448, parentSuperblock = 1048576\<rparr>"
      "blocks s3 2097232 = Some \<lparr>blockSize = 32768, inUse = 1, b_next = 2130024, parentSuperblock = 2097152\<rparr>"
      "blocks s3 3145808 = Some \<lparr>blockSize = 32768, inUse = 1, b_next = 3178600, parentSuperblock = 3145728\<rparr>"
      "classes (heaps s3 0) 15 = \<lparr>sc_size = 32768, sc_usedBlocks = 3, sc_numOfBlocks = 3,
        head = 1048576, tail = 3145728\<rparr>"
      "classes (heaps s3 2) 15 = \<lparr>sc_size = 32768, sc_usedBlocks = 0, sc_numOfBlocks = 0,
        head = 0, tail = 0\<rparr>"
      "held s3 = {}"
      "isInitialized s3"
    by blast
  from eviction_step4 [OF f3]
  obtain s4 where c4: "free lp64 1048680 s3 = Some s4"
    and f4: "sbs s4 1048576 = Some \<lparr>sb_usedBlocks = 0, sb_numOfBlocks = 1, freeList = 1048656,
        sb_next = 0, sb_prev = 3145728, parentHeap = Some 0\<rparr>"
      "sbs s4 2097152 = Some \<lparr>sb_usedBlocks = 1, sb_numOfBlocks = 1, freeList = 2130024,
        sb_next = 3145728, sb_prev = 0, parentHeap = Some 0\<rparr>"
      "sbs s4 3145728 = Some \<lparr>sb_usedBlocks = 1, sb_numOfBlocks = 1, freeList = 3178600,
        sb_next = 1048576, sb_prev = 2097152, parentHeap = Some 0\<rparr>"
      "blocks s4 1048656 = Some \<lparr>blockSize = 32768, inUse = 0, b_next = 1081448, parentSuperblock = 1048576\<rparr>"
      "blocks s4 2097232 = Some \<lparr>blockSize = 32768, inUse = 1, b_next = 2130024, parentSuperblock = 2097152\<rparr>"
      "blocks s4 3145808 = Some \<lparr>blockSize = 32768, inUse = 1, b_next = 3178600, parentSuperblock = 3145728\<rparr>"
      "classes (heaps s4 0) 15 = \<lparr>sc_size = 32768, sc_usedBlocks = 2, sc_numOfBlocks = 3,
        head = 2097152, tail = 1048576\<rparr>"
      "classes (heaps s4 2) 15 = \<lparr>sc_size = 32768, sc_usedBlocks = 0, sc_numOfBlocks = 0,
        head = 0, tail = 0\<rparr>"
      "held s4 = {}"
      "isInitialized s4"
    by blast
  from eviction_step5 [OF f4]
  obtain s5 where c5: "free lp64 2097256 s4 = Some s5"
    and f5: "sbs s5 1048576 = Some \<lparr>sb_usedBlocks = 0, sb_numOfBlocks = 1, freeList = 1048656,
        sb_next = 0, sb_prev = 0, parentHeap = Some 2\<rparr>"
      "sbs s5 2097152 = Some \<lparr>sb_usedBlocks = 0, sb_numOfBlocks = 1, freeList = 2097232,
        sb_next = 0, sb_prev = 3145728, parentHeap = Some 0\<rparr>"
      "sbs s5 3145728 = Some \<lparr>sb_usedBlocks = 1, sb_numOfBlocks = 1, freeList = 3178600,
        sb_next = 2097152, sb_prev = 0, parentHeap = Some 0\<rparr>"
      "blocks s5 1048656 = Some \<lparr>blockSize = 32768, inUse = 0, b_next = 1081448, parentSuperblock = 1048576\<rparr>"
      "blocks s5 2097232 = Some \<lparr>blockSize = 32768, inUse = 0, b_next = 2130024, parentSuperblock = 2097152\<rparr>"
      "blocks s5 3145808 = Some \<lparr>blockSize = 32768, inUse = 1, b_next = 3178600, parentSuperblock = 3145728\<rparr>"
      "classes (heaps s5 0) 15 = \<lparr>sc_size = 32768, sc_usedBlocks = 1, sc_numOfBlocks = 2,
        head = 3145728, tail = 2097152\<rparr>"
      "classes (heaps s5 2) 15 = \<lparr>sc_size = 32768, sc_usedBlocks = 0, sc_numOfBlocks = 1,
        head = 1048576, tail = 1048576\<rparr>"
      "held s5 = {}"
      "isInitialized s5"
    by blast
  have "run lp64 eviction_calls (cold_start mem) = Some s5"
    using c1 c2 c3 c4 c5 by (simp add: eviction_calls_def)
  then show ?thesis
    using f5 by (auto simp: invariant_broken_def below_fraction_1_2 below_fraction_Suc_2 K_def u32_def u32_sub_def
        emptiness_invariant_def)
qed

text \<open>
  C2. The claim: when the map primitive fails in the grow path, malloc releases both locks
  and returns absence. In the code \<open>init_superblock\<close> writes through the \<^verbatim>\<open>NULL\<close> answer
  before line 299 tests it: from a cold start, a request of 16 bytes whose map fails does
  not return.
\<close>

theorem malloc_grow_map_failure: "malloc lp64 0 tid 16 (cold_start mem) = None"
  by (simp add: malloc_def Let_def cold_start_def init_def lp64_def SIZE_THRESHOLD_def
      int_ceil_log2_def ilog2_15 HASH_def NUM_OF_CPUS_def NUM_OF_HEAPS_def NUM_OF_CLASSES_def
      rd_class_def mutex_lock_def search_sizeclass_def zero_class_def malloc_grow_null)

text \<open>
  C3. The claim: every request up to half a superblock, 0 included, gets a class index in
  bounds. For a request of 0 bytes the code converts the logarithm of 0, minus infinity,
  to \<^verbatim>\<open>int\<close>: the class is undefined and malloc does not return a block.
\<close>

theorem malloc_zero_undefined: "malloc L os tid 0 s = None"
  by (simp add: malloc_def int_ceil_log2_def Let_def)

text \<open>
  C6. The claim: a large block is unmapped with the size it was mapped with. The header
  keeps the size in an \<^verbatim>\<open>unsigned int\<close>: a request of \<open>2 ^ 32 + 40000\<close> bytes maps
  \<open>2 ^ 32 + 40024\<close> bytes, records the size 40000, and free unmaps 40024 bytes.
\<close>

theorem large_block_unmap_size:
  "malloc lp64 1048576 tid 4295007296 (cold_start mem) \<noteq> None \<and>
   fst (the (malloc lp64 1048576 tid 4295007296 (cold_start mem))) = 1048600 \<and>
   os_calls (snd (the (malloc lp64 1048576 tid 4295007296 (cold_start mem))))
     = [Mmap 4295007320 1048576] \<and>
   free lp64 1048600 (snd (the (malloc lp64 1048576 tid 4295007296 (cold_start mem)))) \<noteq> None \<and>
   os_calls (the (free lp64 1048600
       (snd (the (malloc lp64 1048576 tid 4295007296 (cold_start mem))))))
     = [Mmap 4295007320 1048576, Munmap 1048576 40024]"
  by (simp add: malloc_def malloc_large_def Let_def cold_start_def init_def lp64_def
      SIZE_THRESHOLD_def fetch_memory_def size_t_def u32_def zero_block_def free_def rd_blk_def)



text \<open>
  C8. The claim: \<open>realloc\<close> copies \<open>sz\<close> bytes into a new region and frees the old one,
  and returns absence, with the old region untouched, when the new allocation fails. With
  the block of \<^verbatim>\<open>malloc(40000)\<close> as the old region: a \<open>realloc\<close> to 16 bytes whose map
  fails does not return (the write through \<^verbatim>\<open>NULL\<close> of C2), and a \<open>realloc\<close> to 50000
  bytes does not return either, since \<^verbatim>\<open>memcpy\<close> reads 50000 bytes from a region of ten
  pages.
\<close>

theorem realloc_does_not_return:
  "malloc lp64 1048576 0 40000 (cold_start Map.empty) = Some (1048600, st_large) \<and>
   realloc lp64 0 0 1048600 16 st_large = None \<and>
   realloc lp64 2097152 0 1048600 50000 st_large = None"
proof (intro conjI)
  show "malloc lp64 1048576 0 40000 (cold_start Map.empty) = Some (1048600, st_large)"
    by (rule st_large_eval)
  show "realloc lp64 0 0 1048600 16 st_large = None"
    unfolding st_large_def
    by (simp add: realloc_def malloc_def malloc_large_def Let_def lp64_def SIZE_THRESHOLD_def
        cold_start_def fetch_memory_def init_def int_ceil_log2_def ilog2_15 HASH_def NUM_OF_CPUS_def
        NUM_OF_HEAPS_def NUM_OF_CLASSES_def rd_class_def mutex_lock_def search_sizeclass_def
        zero_class_def malloc_grow_null)
  have "\<exists>s1. malloc lp64 2097152 0 50000 st_large = Some (2097176, s1) \<and>
          bytes s1 1089536 = None"
    unfolding st_large_def
    by (simp add: malloc_def malloc_large_def Let_def lp64_def SIZE_THRESHOLD_def
        cold_start_def fetch_memory_def init_def size_t_def page_round_def)
  then obtain s1 where m: "malloc lp64 2097152 0 50000 st_large = Some (2097176, s1)"
    and b: "bytes s1 1089536 = None"
    by blast
  show "realloc lp64 2097152 0 1048600 50000 st_large = None"
    using realloc_unmapped [OF m _ _ _ b, of 1048600] by simp
qed

text \<open>
  C10. The claim: a free of a small block modifies only the in-use flag and the next link
  of the block, the free-list head of the superblock, the used-blocks counters and the
  list and heap links. When the free evicts a superblock, \<open>move_superblock\<close> also moves
  the capacity of the superblock from one class to the other: after \<^verbatim>\<open>malloc(32768)\<close>
  from a cold start, the free of the block takes \<open>numOfBlocks\<close> of the class from 1 to 0.
\<close>

theorem free_small_changes_capacity:
  "map_option blockSize (blocks st_small (1048680 - sizeof_blockHeader lp64)) = Some 32768 \<and>
   free lp64 1048680 st_small \<noteq> None \<and>
   sc_numOfBlocks (classes (heaps st_small 0) 15) = 1 \<and>
   sc_numOfBlocks (classes (heaps (the (free lp64 1048680 st_small)) 0) 15) = 0"
  using free_st_small st_small_block by (simp add: lp64_def)

text \<open>
  C10, amended. Let a free of a small block return; let \<open>b\<close> be the header of the block,
  \<open>x\<close> the header of its superblock, \<open>h\<close> the heap of the superblock and \<open>c\<close> the class of
  the block. Then

  \<^item> among the block headers, only the in-use flag and the next link of the freed block
    change (the link becomes the old free-list head of the superblock): its size and its
    superblock, and the headers of all other blocks, are as before;
  \<^item> the payload bytes, the calls to the operating system, the set of held locks, the
    capacity of every superblock, and the size and the identifier of every class and heap
    are as before;
  \<^item> the used-blocks counter and the free-list head of every other superblock are as
    before, and in the superblock of the block the counter is decremented and the
    free-list head is the block;
  \<^item> every class other than class \<open>c\<close> of heap \<open>h\<close> and of the global heap is as before,
    links included;
  \<^item> if the free does not evict (\<open>h\<close> is the global heap, or the test of line 377 fails
    on the class with the block counted out), the heap of every superblock is as before,
    the class of the global heap is as before, and class \<open>c\<close> of heap \<open>h\<close> has the same
    capacity and one used block less;
  \<^item> if it evicts, there is one superblock \<open>t\<close> whose heap becomes the global heap, the
    heap of every other superblock is as before, and the two counters of \<open>t\<close> are taken
    from class \<open>c\<close> of heap \<open>h\<close> and added to class \<open>c\<close> of the global heap.

  What is left to change are the links \<open>sb_next\<close> and \<open>sb_prev\<close> of the superblocks and
  \<open>head\<close> and \<open>tail\<close> of the two classes.
\<close>

theorem free_small_frame:
  assumes "free L ptr s = Some s'" and "ptr \<noteq> 0"
    and "rd_blk s (ptr - sizeof_blockHeader L) = Some b"
    and "blockSize b \<le> SUPERBLOCK_SIZE L div 2"
    and "rd_sb s (parentSuperblock b) = Some x"
    and "parentHeap x = Some h" and "int_log2 (blockSize b) = Some c"
  shows "blocks s' = (blocks s)(ptr - sizeof_blockHeader L \<mapsto> b\<lparr>inUse := 0, b_next := freeList x\<rparr>) \<and>
    (\<forall>a. map_option blockSize (blocks s' a) = map_option blockSize (blocks s a) \<and>
         map_option parentSuperblock (blocks s' a) = map_option parentSuperblock (blocks s a)) \<and>
    (\<forall>a. a \<noteq> ptr - sizeof_blockHeader L \<longrightarrow> blocks s' a = blocks s a) \<and>
    bytes s' = bytes s \<and> os_calls s' = os_calls s \<and> held s' = held s \<and>
    isInitialized s' = isInitialized s \<and> fixed s' = fixed s \<and>
    (\<forall>a. map_option sb_data (sbs s' a) =
         (if a = parentSuperblock b
          then Some (u32_sub (sb_usedBlocks x) 1, sb_numOfBlocks x, ptr - sizeof_blockHeader L)
          else map_option sb_data (sbs s a))) \<and>
    (\<forall>k. k \<noteq> (h, c) \<longrightarrow> k \<noteq> (NUM_OF_CPUS, c) \<longrightarrow> cls_of s' k = cls_of s k) \<and>
    (if h \<noteq> NUM_OF_CPUS \<and>
        invariant_broken ((cls_of s (h, c))\<lparr>sc_usedBlocks := u32_sub (sc_usedBlocks (cls_of s (h, c))) 1\<rparr>) x
     then \<exists>t y. sbs s' t = Some y \<and> parentHeap y = Some NUM_OF_CPUS \<and>
            (\<forall>a. a \<noteq> t \<longrightarrow> map_option parentHeap (sbs s' a) = map_option parentHeap (sbs s a)) \<and>
            sc_core (cls_of s' (h, c)) = (sc_size (cls_of s (h, c)),
               u32_sub (u32_sub (sc_usedBlocks (cls_of s (h, c))) 1) (sb_usedBlocks y),
               u32_sub (sc_numOfBlocks (cls_of s (h, c))) (sb_numOfBlocks y)) \<and>
            sc_core (cls_of s' (NUM_OF_CPUS, c)) = (sc_size (cls_of s (NUM_OF_CPUS, c)),
               u32 (sc_usedBlocks (cls_of s (NUM_OF_CPUS, c)) + sb_usedBlocks y),
               u32 (sc_numOfBlocks (cls_of s (NUM_OF_CPUS, c)) + sb_numOfBlocks y))
     else (\<forall>a. map_option parentHeap (sbs s' a) = map_option parentHeap (sbs s a)) \<and>
          sc_core (cls_of s' (h, c)) = (sc_size (cls_of s (h, c)),
             u32_sub (sc_usedBlocks (cls_of s (h, c))) 1, sc_numOfBlocks (cls_of s (h, c))) \<and>
          (h \<noteq> NUM_OF_CPUS \<longrightarrow> cls_of s' (NUM_OF_CPUS, c) = cls_of s (NUM_OF_CPUS, c)))"
proof -
  from assms have fs: "free_small L (ptr - sizeof_blockHeader L) s = Some s'"
    by (simp add: free_def Let_def)
  note e = free_small_effect [OF fs assms(3) assms(5) assms(6) assms(7)]
  from e have b: "blocks s' = (blocks s)(ptr - sizeof_blockHeader L \<mapsto> b\<lparr>inUse := 0, b_next := freeList x\<rparr>)"
    by (rule conjunct1)
  from free_small_blocks [OF fs] have r: "bytes s' = bytes s" "os_calls s' = os_calls s"
    "isInitialized s' = isInitialized s" "held s' = held s"
    by auto
  from assms(3) have old: "blocks s (ptr - sizeof_blockHeader L) = Some b"
    by (auto simp: rd_blk_def split: if_splits)
  have 1: "\<forall>a. map_option blockSize (blocks s' a) = map_option blockSize (blocks s a) \<and>
     map_option parentSuperblock (blocks s' a) = map_option parentSuperblock (blocks s a)"
    using b old by simp
  have 2: "\<forall>a. a \<noteq> ptr - sizeof_blockHeader L \<longrightarrow> blocks s' a = blocks s a"
    using b by simp
  note fx = free_small_fixed [OF fs]
  note e2 = e [THEN conjunct2]
  note e3 = e2 [THEN conjunct2, THEN conjunct2]
  show ?thesis
    by (intro conjI) (fact b 1 2 r fx e2 [THEN conjunct1] e3 [THEN conjunct1] e3 [THEN conjunct2])+
qed

theorem free_small_frame_witness:
  "free lp64 1048680 st_small \<noteq> None \<and> (1048680 :: nat) \<noteq> 0 \<and>
   rd_blk st_small (1048680 - sizeof_blockHeader lp64) =
     Some \<lparr>blockSize = 32768, inUse = 1, b_next = 1081448, parentSuperblock = 1048576\<rparr> \<and>
   (32768 :: nat) \<le> SUPERBLOCK_SIZE lp64 div 2 \<and>
   rd_sb st_small 1048576 = Some \<lparr>sb_usedBlocks = 1, sb_numOfBlocks = 1, freeList = 1081448,
     sb_next = 0, sb_prev = 0, parentHeap = Some 0\<rparr> \<and>
   int_log2 32768 = Some 15 \<and>
   blocks (the (free lp64 1048680 st_small)) = (blocks st_small)(1048656 \<mapsto>
     \<lparr>blockSize = 32768, inUse = 0, b_next = 1081448, parentSuperblock = 1048576\<rparr>) \<and>
   map_option sb_data (sbs (the (free lp64 1048680 st_small)) 1048576) = Some (0, 1, 1048656) \<and>
   cls_of (the (free lp64 1048680 st_small)) (1, 15) = cls_of st_small (1, 15)"
proof -
  let ?b = "\<lparr>blockSize = 32768, inUse = 1, b_next = 1081448, parentSuperblock = 1048576\<rparr>"
  let ?x = "\<lparr>sb_usedBlocks = 1, sb_numOfBlocks = 1, freeList = 1081448,
     sb_next = 0, sb_prev = 0, parentHeap = Some 0\<rparr>"
  obtain s' where f: "free lp64 1048680 st_small = Some s'"
    using free_st_small by auto
  have r: "rd_blk st_small (1048680 - sizeof_blockHeader lp64) = Some ?b"
    using st_small_block by (simp add: rd_blk_def lp64_def)
  have le: "blockSize ?b \<le> SUPERBLOCK_SIZE lp64 div 2"
    by (simp add: lp64_def)
  have x: "rd_sb st_small (parentSuperblock ?b) = Some ?x"
    using st_small_sb by (simp add: rd_sb_def)
  have h: "parentHeap ?x = Some 0"
    by simp
  have c: "int_log2 (blockSize ?b) = Some 15"
    by (simp add: int_log2_def ilog2_32768)
  have n: "(1048680 :: nat) \<noteq> 0"
    by simp
  from free_small_frame [OF f n r le x h c]
  have "blocks s' = (blocks st_small)(1048680 - sizeof_blockHeader lp64 \<mapsto> ?b\<lparr>inUse := 0, b_next := freeList ?x\<rparr>)"
    and "map_option sb_data (sbs s' 1048576) = Some (u32_sub 1 1, 1, 1048680 - sizeof_blockHeader lp64)"
    and "cls_of s' (1, 15) = cls_of st_small (1, 15)"
    by (simp_all add: NUM_OF_CPUS_def)
  then show ?thesis
    using f r le x c by (simp add: lp64_def u32_sub_def)
qed

text \<open>
  C9. The claim: \<open>calloc\<close> asks \<open>malloc\<close> for \<open>num * sz\<close> bytes and returns a pointer
  whose first \<open>num * sz\<close> bytes are zero, or absence. The product is computed in
  \<^verbatim>\<open>size_t\<close> with no test for overflow: for \<open>num = sz = 2 ^ 32 + 1\<close> on a 64-bit platform
  it wraps to \<open>2 ^ 33 + 1\<close>. \<open>calloc\<close> does not return \<^verbatim>\<open>NULL\<close>: it returns a pointer into
  a region mapped with a single request of \<open>2 ^ 33 + 25\<close> bytes, and the pages of the
  region end 8589938664 bytes after the pointer, an offset below \<open>num * sz\<close>.
\<close>

theorem calloc_product_wraps:
  "calloc lp64 1048576 0 4294967297 4294967297 (cold_start Map.empty) \<noteq> None \<and>
   fst (the (calloc lp64 1048576 0 4294967297 4294967297 (cold_start Map.empty))) = 1048600 \<and>
   os_calls (snd (the (calloc lp64 1048576 0 4294967297 4294967297 (cold_start Map.empty))))
     = [Mmap 8589934617 1048576] \<and>
   (8589938664 :: nat) < 4294967297 * 4294967297 \<and>
   bytes (snd (the (calloc lp64 1048576 0 4294967297 4294967297 (cold_start Map.empty))))
     (1048600 + 8589938664) = None"
  by (simp add: calloc_def malloc_def malloc_large_def Let_def cold_start_def init_def lp64_def
      SIZE_THRESHOLD_def fetch_memory_def size_t_def u32_def zero_block_def memset_def
      mapped_range_def page_round_def)


end
